theory Spec2Isabelle
  imports Complex_Main "HOL-Library.Word"
begin

section \<open>Data model of \<open>breath_pipeline.h\<close>\<close>

text \<open>
  The pipeline is one C++ class, \<open>BreathPipeline\<close>. Its members become the fields of the
  record \<open>pipeline\<close>, its methods become functions from a pipeline to the updated pipeline.

  Conventions of the embedding:
  \<^item> \<open>uint32_t\<close> timestamps and the tick deadline are \<open>32 word\<close>: subtraction wraps, and
    \<open>(int32_t)(a - b) < 0\<close> is a signed comparison;
  \<open>int16_t\<close> ADC counts are \<open>16 word\<close>, read with \<open>sint\<close>;
  \<^item> ring indices and fill counts (\<open>uint8_t\<close>, \<open>uint16_t\<close>, \<open>size_t\<close>) are \<open>nat\<close>: every
    one of them is written only as \<open>(i + 1) % cap\<close> or incremented under a guard
    \<open>i < cap\<close>, so it never leaves its type's range;
  \<^item> a \<open>float\<close> is the real number it stands for, and every float operation rounds its
    exact result to binary32 with \<open>f32\<close> (see below); a decimal literal such as \<open>0.9f\<close> is
    \<open>f32 0.9\<close>;
  \<^item> a C array is a function from its index to the element;
  \<^item> the function-local \<open>static\<close> variables of \<open>detectArtifact\<close>, \<open>peakDetectAndRR\<close>,
    \<open>updateApneaFSM\<close> and \<open>updateHypopneaFSM\<close> are fields of the pipeline (there is one
    pipeline), kept apart from the class members since \<open>begin\<close> cannot reach them;
  \<^item> the event callback is an external function: the field \<open>cb\<close> says whether one is
    registered, and \<open>delivered\<close> is the list of events it has been called with, oldest
    first.
\<close>

type_synonym u32 = "32 word"
type_synonym i16 = "16 word"

datatype PrimaryChannel = CH1_A0 | CH2_A1

datatype adsGain = GAIN_TWOTHIRDS | GAIN_ONE | GAIN_TWO | GAIN_FOUR | GAIN_EIGHT | GAIN_SIXTEEN

record Config =
  fsProcHz :: u32
  useADS1115 :: bool
  adsGain :: adsGain
  adsChannel1 :: nat
  adsChannel2 :: nat
  primaryChannel :: PrimaryChannel
  baselineTauSec :: real
  antiRingTaps :: nat
  envTauSec :: real
  minPeakDistanceSec :: real
  refractorySec :: real
  thrEmaTauSec :: real
  thrFactor :: real
  hypopneaFrac :: real
  hypopneaMinSec :: real
  apneaMinSec :: real
  recoveryMinSec :: real
  railMarginMV :: real
  spikeDerivMV :: real
  rmsBurstFactor :: real
  burstFsHz :: nat
  burstPreMs :: nat
  burstPostMs :: nat

record ChannelState =
  dcBaseline :: real
  maBuf :: "nat \<Rightarrow> real"
  maIdx :: nat
  maFill :: nat
  env :: real
  envBaseline :: real
  lastPeakMs :: u32
  lastCrossMs :: u32
  lastEnvPeak :: real

definition MAX_MA :: nat where
  "MAX_MA = 8"

record Status =
  bpm :: real
  signalOK :: bool
  apneaActive :: bool
  hypopneaActive :: bool
  artifact :: bool
  envPrimary :: real
  envBaselinePrimary :: real
  thresholdPrimary :: real
  snrEstimate :: real

datatype EventType = ApneaStart | ApneaEnd | HypopneaStart | HypopneaEnd | ArtifactDetected

text \<open>\<^verbatim>\<open>struct Event { EventType type; uint32_t tsMs; uint32_t durationMs; };\<close>\<close>

datatype Event = Event (etype: EventType) (tsMs: u32) (durationMs: u32)

text \<open>
  \<^verbatim>\<open>struct Telemetry { uint32_t tsMs; float bpm; bool signalOK; bool apnea; bool hypopnea;
    bool artifact; float env; float thr; };\<close>
\<close>

datatype Telemetry =
  Telemetry (tl_tsMs: u32) (tl_bpm: real) (tl_signalOK: bool) (tl_apnea: bool)
    (tl_hypopnea: bool) (tl_artifact: bool) (tl_env: real) (tl_thr: real)

definition TELE_CAP :: nat where
  "TELE_CAP = 256"

definition RR_WIN :: nat where
  "RR_WIN = 6"

definition BURST_CAP :: nat where
  "BURST_CAP = 16000"

record pipeline =
  ads :: bool \<comment> \<open>\<open>_ads != nullptr\<close>\<close>
  cfg :: Config
  ch1 :: ChannelState
  ch2 :: ChannelState
  stat :: Status
  intervalUs :: u32
  nextSampleUs :: u32
  rrBuf :: "nat \<Rightarrow> real"
  rrIdx :: nat
  rrFill :: nat
  tele :: "nat \<Rightarrow> Telemetry"
  tlHead :: nat
  tlTail :: nat
  burstCh1 :: "nat \<Rightarrow> i16"
  burstCh2 :: "nat \<Rightarrow> i16"
  burstHead :: nat
  burstTail :: nat
  burstFill :: nat
  burstActive :: bool
  burstPostRemain :: nat
  alphaDC :: real
  alphaEnv :: real
  alphaThr :: real
  lsb_mV :: real
  cb :: bool \<comment> \<open>\<open>_cb != nullptr\<close>\<close>
  prevEnv :: real \<comment> \<open>\<open>static\<close> of \<open>detectArtifact\<close>\<close>
  prevAbove :: bool \<comment> \<open>\<open>static\<close> of \<open>peakDetectAndRR\<close>\<close>
  lastEventMs :: u32 \<comment> \<open>\<open>static\<close> of \<open>peakDetectAndRR\<close>\<close>
  apneaActive_static :: bool \<comment> \<open>\<open>static bool apneaActive\<close> of \<open>updateApneaFSM\<close>\<close>
  hypoStartMs :: u32 \<comment> \<open>\<open>static\<close> of \<open>updateHypopneaFSM\<close>\<close>
  hypoActive :: bool \<comment> \<open>\<open>static\<close> of \<open>updateHypopneaFSM\<close>\<close>
  delivered :: "Event list" \<comment> \<open>the calls \<open>_cb(ev)\<close> made so far\<close>

text \<open>
  What one call of \<open>tick\<close> reads from outside: \<open>micros()\<close>, the two ADC readings
  (\<open>readADC_SingleEnded\<close>, read only when an ADC is attached) and \<open>millis()\<close>.
\<close>

record tickIn =
  nowUs :: u32
  adc0 :: i16
  adc1 :: i16
  nowMs :: u32

text \<open>
  The conversion \<open>(uint32_t)x\<close> of a float truncates towards zero. C leaves it undefined
  when the truncated value is not a \<open>uint32_t\<close>; the model saturates there. No theorem
  below depends on the value of a duration threshold.
\<close>

definition toU32 :: "real \<Rightarrow> u32" where
  "toU32 x = (if x < 0 then 0 else if 2 ^ 32 \<le> x then - 1 else word_of_int \<lfloor>x\<rfloor>)"

text \<open>\<open>roundf\<close> rounds to the nearest integer, halves away from zero.\<close>

definition roundf :: "real \<Rightarrow> int" where
  "roundf x = (if 0 \<le> x then \<lfloor>x + 1 / 2\<rfloor> else - \<lfloor>- x + 1 / 2\<rfloor>)"

section \<open>Binary32 arithmetic\<close>

text \<open>
  \<open>f32 x\<close> is the binary32 number nearest to \<open>x\<close>, ties to the even significand: \<open>x\<close> is
  rounded to a multiple of its unit in the last place, \<open>2 ^ (e - 23)\<close>, where \<open>e\<close> is the
  exponent of \<open>x\<close>, not below -126 (so that subnormal numbers and underflow to zero are
  as in binary32). \<open>expo\<close> finds the exponent by counting up from -126, as long as
  \<open>2 ^ (e + 1) \<le> \<bar>x\<bar>\<close> and \<open>e < 127\<close>.

  Limits of the model: there is no infinity and no NaN (a magnitude of \<open>2 ^ 128\<close> or more
  stays finite, on the grid of exponent 127), and every operation is rounded on its own,
  with no fused multiply-add.
\<close>

definition pow2 :: "int \<Rightarrow> real" where
  "pow2 e = (if 0 \<le> e then 2 ^ nat e else 1 / 2 ^ nat (- e))"

definition rne :: "real \<Rightarrow> int" where
  "rne q =
     (let f = \<lfloor>q\<rfloor>; r = q - of_int f
      in if r < 1 / 2 then f else if 1 / 2 < r then f + 1 else if even f then f else f + 1)"

fun expoFrom :: "nat \<Rightarrow> int \<Rightarrow> real \<Rightarrow> int" where
  "expoFrom 0 e a = e"
| "expoFrom (Suc n) e a = (if a < pow2 (e + 1) then e else expoFrom n (e + 1) a)"

definition expo :: "real \<Rightarrow> int" where
  "expo x = expoFrom 253 (- 126) \<bar>x\<bar>"

definition f32 :: "real \<Rightarrow> real" where
  "f32 x = (let ulp = pow2 (expo x - 23) in of_int (rne (x / ulp)) * ulp)"

text \<open>
  Modelled from the spec: \<open>expf\<close> belongs to the C library, not to the repository. The
  spec gives the coefficient as \<open>1 - exp (- (1 / rate) / tau)\<close>; \<open>expf\<close> is taken to be
  that exponential, correctly rounded to binary32.
\<close>

definition expf :: "real \<Rightarrow> real" where
  "expf x = f32 (exp x)"

section \<open>Calibration\<close>

text \<open>
  \<^verbatim>\<open>static float alphaFromTau(float tauSec, uint32_t fs) {
    if (tauSec <= 0.0f) return 1.0f;
    const float dt = 1.0f / max(1u, fs); return 1.0f - expf(-dt / tauSec); }\<close>
\<close>

definition alphaFromTau :: "real \<Rightarrow> u32 \<Rightarrow> real" where
  "alphaFromTau tauSec fs =
     (if tauSec \<le> 0 then 1
      else let dt = f32 (1 / f32 (real (unat (max 1 fs))))
           in f32 (1 - expf (f32 (- dt / tauSec))))"

text \<open>
  \<^verbatim>\<open>float computeLsbMilliVolts(bool ads1115, adsGain_t g)\<close>. The \<open>default\<close> branch of
  the switch is for values outside the six enumerators and has no counterpart here.
\<close>

definition computeLsbMilliVolts :: "bool \<Rightarrow> adsGain \<Rightarrow> real" where
  "computeLsbMilliVolts ads1115 g =
     (let fsV = (case g of
                   GAIN_TWOTHIRDS \<Rightarrow> f32 6.144 | GAIN_ONE \<Rightarrow> f32 4.096
                 | GAIN_TWO \<Rightarrow> f32 2.048 | GAIN_FOUR \<Rightarrow> f32 1.024
                 | GAIN_EIGHT \<Rightarrow> f32 0.512 | GAIN_SIXTEEN \<Rightarrow> f32 0.256);
          lsbV = (if ads1115 then f32 (fsV / 32768) else f32 (fsV / 2048))
      in f32 (lsbV * 1000))"

definition countsToMilliVolts :: "pipeline \<Rightarrow> i16 \<Rightarrow> real" where
  "countsToMilliVolts p counts = f32 (real_of_int (sint counts) * lsb_mV p)"

definition railMilliVolts :: "pipeline \<Rightarrow> real" where
  "railMilliVolts p =
     (case adsGain (cfg p) of
        GAIN_TWOTHIRDS \<Rightarrow> 6144 | GAIN_ONE \<Rightarrow> 4096 | GAIN_TWO \<Rightarrow> 2048
      | GAIN_FOUR \<Rightarrow> 1024 | GAIN_EIGHT \<Rightarrow> 512 | GAIN_SIXTEEN \<Rightarrow> 256)"

section \<open>Channel conditioner\<close>

text \<open>
  \<^verbatim>\<open>void processOne(ChannelState& C, float mv)\<close>: baseline EMA, detrending, the anti-ring
  moving average over the filled part of \<open>maBuf\<close>, rectification, envelope EMA and the
  envelope-peak baseline. The summing loop \<open>for (i = 0; i < C.maFill; i++) ma += C.maBuf[i]\<close>
  is the \<open>fold\<close>.
\<close>

text \<open>
  The three exponential moving averages have the shape \<open>(1.0f - a) * old + a * x\<close>: a
  subtraction, two products and a sum, each rounded.
\<close>

definition ema :: "real \<Rightarrow> real \<Rightarrow> real \<Rightarrow> real" where
  "ema a old x = f32 (f32 (f32 (1 - a) * old) + f32 (a * x))"

definition processOne :: "pipeline \<Rightarrow> ChannelState \<Rightarrow> real \<Rightarrow> ChannelState" where
  "processOne p C mv =
     (let dc = ema (alphaDC p) (dcBaseline C) mv;
          detr = f32 (mv - dc);
          taps = min MAX_MA (max 1 (antiRingTaps (cfg p)));
          buf = (maBuf C)(maIdx C := detr);
          idx = (maIdx C + 1) mod taps;
          fill = (if maFill C < taps then maFill C + 1 else maFill C);
          ma = f32 (fold (\<lambda>i acc. f32 (acc + buf i)) [0..<fill] 0 / f32 (real (max 1 fill)));
          rect = \<bar>ma\<bar>;
          e = ema (alphaEnv p) (env C) rect;
          C' = C\<lparr>dcBaseline := dc, maBuf := buf, maIdx := idx, maFill := fill, env := e\<rparr>
      in if e > envBaseline C
         then C'\<lparr>envBaseline := ema (alphaThr p) (envBaseline C) e, lastEnvPeak := e\<rparr>
         else C'\<lparr>envBaseline :=
                   max (f32 (envBaseline C * f32 0.9995)) (f32 (e * f32 0.9))\<rparr>)"

section \<open>Artifact detector\<close>

text \<open>
  \<^verbatim>\<open>bool detectArtifact(const ChannelState& C, float mv) const\<close>. The rail check returns
  before the \<open>static float prevEnv\<close> is read or written; the spike check updates it.
\<close>

definition detectArtifact :: "pipeline \<Rightarrow> ChannelState \<Rightarrow> real \<Rightarrow> bool \<times> pipeline" where
  "detectArtifact p C mv =
     (if \<bar>f32 (railMilliVolts p - \<bar>mv\<bar>)\<bar> \<le> railMarginMV (cfg p) then (True, p)
      else
        let dEnv = f32 (env C - prevEnv p);
            p' = p\<lparr>prevEnv := env C\<rparr>
        in if \<bar>dEnv\<bar> > spikeDerivMV (cfg p) then (True, p')
           else if env C > f32 (rmsBurstFactor (cfg p) * max (envBaseline C) (f32 (1 / 1000000)))
                then (True, p')
                else (False, p'))"

section \<open>Peak and rate estimator\<close>

text \<open>
  \<^verbatim>\<open>float robustBpm() const\<close>: copies the first \<open>_rrFill\<close> entries of \<open>_rrBuf\<close>, sorts the
  copy by exchanging \<open>tmp[i]\<close> with every smaller \<open>tmp[j]\<close>, \<open>j > i\<close>, and returns the
  median. \<open>sortInner\<close> is the loop over \<open>j\<close>, \<open>sortOuter\<close> the loop over \<open>i\<close>.
\<close>

function sortInner :: "nat \<Rightarrow> nat \<Rightarrow> nat \<Rightarrow> real list \<Rightarrow> real list" where
  "sortInner i j n tmp =
     (if j < n
      then sortInner i (j + 1) n
             (if tmp ! j < tmp ! i then tmp[i := tmp ! j, j := tmp ! i] else tmp)
      else tmp)"
  by pat_completeness auto
termination
  by (relation "measure (\<lambda>(i, j, n, tmp). n - j)") auto

function sortOuter :: "nat \<Rightarrow> nat \<Rightarrow> real list \<Rightarrow> real list" where
  "sortOuter i n tmp =
     (if i < n then sortOuter (i + 1) n (sortInner i (i + 1) n tmp) else tmp)"
  by pat_completeness auto
termination
  by (relation "measure (\<lambda>(i, n, tmp). n - i)") auto

definition robustBpm :: "pipeline \<Rightarrow> real" where
  "robustBpm p =
     (let n = rrFill p;
          tmp = sortOuter 0 n (map (rrBuf p) [0..<n])
      in if n = 0 then 0
         else if n mod 2 \<noteq> 0 then tmp ! (n div 2)
         else f32 (0.5 * f32 (tmp ! (n div 2 - 1) + tmp ! (n div 2))))"

text \<open>
  \<^verbatim>\<open>void peakDetectAndRR(ChannelState& C, uint32_t nowMs)\<close>. The channel reference is a
  value passed in and returned. The statics \<open>prevAbove\<close> and \<open>lastEventMs\<close> are fields of
  the pipeline. \<open>(nowMs - C.lastPeakMs) / 1000.0f\<close> is the wrapped difference, read as an
  unsigned number, converted to float and divided by 1000.
\<close>

definition peakDetectAndRR :: "pipeline \<Rightarrow> ChannelState \<Rightarrow> u32 \<Rightarrow> pipeline \<times> ChannelState" where
  "peakDetectAndRR p C now =
     (let thr = f32 (thrFactor (cfg p) * max (envBaseline C) (f32 (1 / 1000000)));
          above = (env C \<ge> thr);
          rising = (above \<and> \<not> prevAbove p);
          p1 = p\<lparr>prevAbove := above\<rparr>;
          minDistMs = toU32 (f32 (minPeakDistanceSec (cfg p) * 1000));
          refractoryMs = toU32 (f32 (refractorySec (cfg p) * 1000))
      in if rising \<and> now - lastPeakMs C \<ge> minDistMs \<and> now - lastEventMs p1 \<ge> refractoryMs
         then
           let ibiSec = f32 (f32 (real (unat (now - lastPeakMs C))) / 1000);
               p2 = (if lastPeakMs C \<noteq> 0 \<and> ibiSec > f32 0.2 \<and> ibiSec < 10
                     then
                       let q = p1\<lparr>rrBuf := (rrBuf p1)(rrIdx p1 := f32 (60 / ibiSec)),
                                  rrIdx := (rrIdx p1 + 1) mod RR_WIN,
                                  rrFill := (if rrFill p1 < RR_WIN then rrFill p1 + 1
                                             else rrFill p1)\<rparr>
                       in q\<lparr>stat := (stat q)\<lparr>bpm := robustBpm q\<rparr>\<rparr>
                     else p1)
           in (p2\<lparr>lastEventMs := now\<rparr>, C\<lparr>lastPeakMs := now, lastEnvPeak := env C\<rparr>)
         else (p1, C))"

section \<open>Event state machines\<close>

text \<open>\<open>if (_cb) _cb(ev)\<close>: the event reaches the sink when a callback is registered.\<close>

definition emit :: "pipeline \<Rightarrow> Event \<Rightarrow> pipeline" where
  "emit p ev = (if cb p then p\<lparr>delivered := delivered p @ [ev]\<rparr> else p)"

definition updateApneaFSM :: "pipeline \<Rightarrow> u32 \<Rightarrow> bool \<Rightarrow> pipeline" where
  "updateApneaFSM p now apneaNow =
     (if apneaNow \<and> \<not> apneaActive_static p
      then emit (p\<lparr>apneaActive_static := True, stat := (stat p)\<lparr>apneaActive := True\<rparr>\<rparr>)
             (Event ApneaStart now 0)
      else if \<not> apneaNow \<and> apneaActive_static p
      then emit (p\<lparr>apneaActive_static := False, stat := (stat p)\<lparr>apneaActive := False\<rparr>\<rparr>)
             (Event ApneaEnd now 0)
      else p)"

definition updateHypopneaFSM :: "pipeline \<Rightarrow> u32 \<Rightarrow> bool \<Rightarrow> pipeline" where
  "updateHypopneaFSM p now hypoNow =
     (if hypoNow
      then
        if \<not> hypoActive p
        then
          let p1 = (if hypoStartMs p = 0 then p\<lparr>hypoStartMs := now\<rparr> else p)
          in if now - hypoStartMs p1 \<ge> toU32 (f32 (hypopneaMinSec (cfg p1) * 1000))
             then emit (p1\<lparr>hypoActive := True, stat := (stat p1)\<lparr>hypopneaActive := True\<rparr>\<rparr>)
                    (Event HypopneaStart now 0)
             else p1
        else p
      else
        let p1 = p\<lparr>hypoStartMs := 0\<rparr>
        in if hypoActive p1
           then emit (p1\<lparr>hypoActive := False, stat := (stat p1)\<lparr>hypopneaActive := False\<rparr>\<rparr>)
                  (Event HypopneaEnd now 0)
           else p1)"

section \<open>Telemetry and burst rings\<close>

text \<open>
  \<^verbatim>\<open>void pushTele(uint32_t tsMs) {
    const uint16_t next = (uint16_t)((_tlHead + 1) % TELE_CAP);
    if (next == _tlTail) { _tlTail = (uint16_t)((_tlTail + 1) % TELE_CAP); }
    _tele[_tlHead] = Telemetry{ tsMs, _stat.bpm, ... }; _tlHead = next; }\<close>
\<close>

text \<open>
  The record \<^verbatim>\<open>Telemetry{ tsMs, _stat.bpm, _stat.signalOK, _stat.apneaActive,
  _stat.hypopneaActive, _stat.artifact, _stat.envPrimary, _stat.thresholdPrimary }\<close>.
\<close>

definition snapshot :: "Status \<Rightarrow> u32 \<Rightarrow> Telemetry" where
  "snapshot s ts =
     Telemetry ts (bpm s) (signalOK s) (apneaActive s) (hypopneaActive s) (artifact s)
       (envPrimary s) (thresholdPrimary s)"

definition pushTele :: "pipeline \<Rightarrow> u32 \<Rightarrow> pipeline" where
  "pushTele p ts =
     (let next = (tlHead p + 1) mod TELE_CAP;
          p1 = (if next = tlTail p then p\<lparr>tlTail := (tlTail p + 1) mod TELE_CAP\<rparr> else p)
      in p1\<lparr>tele := (tele p1)(tlHead p1 := snapshot (stat p1) ts), tlHead := next\<rparr>)"

text \<open>
  \<^verbatim>\<open>bool popTelemetry(Telemetry& out)\<close>: the result, the caller's \<open>out\<close> after the call
  and the pipeline after the call.
\<close>

definition popTelemetry :: "pipeline \<Rightarrow> Telemetry \<Rightarrow> bool \<times> Telemetry \<times> pipeline" where
  "popTelemetry p out =
     (if tlHead p = tlTail p then (False, out, p)
      else (True, tele p (tlTail p), p\<lparr>tlTail := (tlTail p + 1) mod TELE_CAP\<rparr>))"

text \<open>
  \<^verbatim>\<open>void pushBurst(int16_t c0, int16_t c1) {
    const size_t need = (size_t)((_cfg.burstPreMs + _cfg.burstPostMs) * (_cfg.fsProcHz / 1000.0f));
    const size_t cap = min(BURST_CAP, max((size_t)64, need));
    _burstCh1[_burstHead] = c0; _burstCh2[_burstHead] = c1; _burstHead = (_burstHead + 1) % cap;
    if (_burstFill < cap) { _burstFill++; } else { _burstTail = (_burstTail + 1) % cap; } }\<close>
  \<open>burstCap\<close> is the local \<open>cap\<close>.
\<close>

definition burstCap :: "Config \<Rightarrow> nat" where
  "burstCap c =
     (let need = nat \<lfloor>f32 (f32 (real (burstPreMs c + burstPostMs c)) *
                             f32 (f32 (real (unat (fsProcHz c))) / 1000))\<rfloor>
      in min BURST_CAP (max 64 need))"

definition pushBurst :: "pipeline \<Rightarrow> i16 \<Rightarrow> i16 \<Rightarrow> pipeline" where
  "pushBurst p c0 c1 =
     (let cap = burstCap (cfg p);
          p1 = p\<lparr>burstCh1 := (burstCh1 p)(burstHead p := c0),
                 burstCh2 := (burstCh2 p)(burstHead p := c1),
                 burstHead := (burstHead p + 1) mod cap\<rparr>
      in if burstFill p1 < cap then p1\<lparr>burstFill := burstFill p1 + 1\<rparr>
         else p1\<lparr>burstTail := (burstTail p1 + 1) mod cap\<rparr>)"

definition handleBurst :: "pipeline \<Rightarrow> u32 \<Rightarrow> real \<Rightarrow> real \<Rightarrow> pipeline" where
  "handleBurst p now mv0 mv1 =
     (let c0 = word_of_int (roundf (f32 (mv0 / lsb_mV p)));
          c1 = word_of_int (roundf (f32 (mv1 / lsb_mV p)));
          p1 = pushBurst p c0 c1
      in if burstActive p1
         then
           let stepMs = unat (1000 div max 1 (fsProcHz (cfg p1)));
               p2 = (if burstPostRemain p1 > stepMs
                     then p1\<lparr>burstPostRemain := burstPostRemain p1 - stepMs\<rparr>
                     else p1\<lparr>burstPostRemain := 0\<rparr>)
           in if burstPostRemain p2 = 0 then p2\<lparr>burstActive := False\<rparr> else p2
         else p1)"

definition triggerBurst :: "pipeline \<Rightarrow> nat \<Rightarrow> pipeline" where
  "triggerBurst p postMs = p\<lparr>burstActive := True, burstPostRemain := postMs\<rparr>"

text \<open>
  \<^verbatim>\<open>size_t exportBurst(int16_t* ch1Buf, int16_t* ch2Buf, size_t maxSamples) {
    const size_t have = min(_burstFill, maxSamples);
    for (size_t i = 0; i < have; i++) { const size_t idx = (_burstTail + i) % BURST_CAP;
      ch1Buf[i] = _burstCh1[idx]; ch2Buf[i] = _burstCh2[idx]; }
    return have; }\<close>
  The function writes no member of the pipeline. The result is the returned count and
  the caller's two buffers after the call.
\<close>

definition exportBurst ::
  "pipeline \<Rightarrow> (nat \<Rightarrow> i16) \<Rightarrow> (nat \<Rightarrow> i16) \<Rightarrow> nat \<Rightarrow> nat \<times> (nat \<Rightarrow> i16) \<times> (nat \<Rightarrow> i16)" where
  "exportBurst p ch1Buf ch2Buf maxSamples =
     (let have = min (burstFill p) maxSamples;
          (b1, b2) = fold (\<lambda>i (b1, b2).
                       let idx = (burstTail p + i) mod BURST_CAP
                       in (b1(i := burstCh1 p idx), b2(i := burstCh2 p idx)))
                     [0..<have] (ch1Buf, ch2Buf)
      in (have, b1, b2))"

section \<open>Initialisation and configuration\<close>

definition zeroStatus :: Status where
  "zeroStatus = \<lparr>bpm = 0, signalOK = False, apneaActive = False, hypopneaActive = False,
     artifact = False, envPrimary = 0, envBaselinePrimary = 0, thresholdPrimary = 0,
     snrEstimate = 0\<rparr>"

text \<open>
  \<^verbatim>\<open>void begin(Adafruit_ADS1015* ads, const Config& cfg)\<close>, with the value \<open>micros()\<close>
  returns as a third argument (\<open>begin\<close> is a keyword of Isabelle, hence the prime). The
  call \<open>_ads->setGain\<close> acts on the ADC only.
\<close>

definition begin' :: "pipeline \<Rightarrow> bool \<Rightarrow> Config \<Rightarrow> u32 \<Rightarrow> pipeline" where
  "begin' p adsPtr c us =
     p\<lparr>ads := adsPtr, cfg := c,
       alphaDC := alphaFromTau (baselineTauSec c) (fsProcHz c),
       alphaEnv := alphaFromTau (envTauSec c) (fsProcHz c),
       alphaThr := alphaFromTau (thrEmaTauSec c) (fsProcHz c),
       intervalUs := 1000000 div max 1 (fsProcHz c),
       nextSampleUs := us,
       rrBuf := (\<lambda>i. 0), rrIdx := 0, rrFill := 0,
       stat := zeroStatus,
       tlHead := 0, tlTail := 0,
       burstActive := False, burstPostRemain := 0,
       lsb_mV := computeLsbMilliVolts (useADS1115 c) (adsGain c)\<rparr>"

definition updateConfig :: "pipeline \<Rightarrow> Config \<Rightarrow> pipeline" where
  "updateConfig p c =
     p\<lparr>cfg := c,
       alphaDC := alphaFromTau (baselineTauSec c) (fsProcHz c),
       alphaEnv := alphaFromTau (envTauSec c) (fsProcHz c),
       alphaThr := alphaFromTau (thrEmaTauSec c) (fsProcHz c),
       lsb_mV := computeLsbMilliVolts (useADS1115 c) (adsGain c),
       intervalUs := 1000000 div max 1 (fsProcHz c)\<rparr>"

definition setEventCallback :: "pipeline \<Rightarrow> bool \<Rightarrow> pipeline" where
  "setEventCallback p registered = p\<lparr>cb := registered\<rparr>"

definition getStatus :: "pipeline \<Rightarrow> Status" where
  "getStatus p = stat p"

section \<open>Tick scheduler\<close>

text \<open>
  \<open>tick\<close> is straight-line code. It is embedded block by block, each block a function
  of its own, so that every definition stays small; \<open>tick\<close> below chains the blocks in the
  order of the source. The locals a later block reads (\<open>artifact\<close>, \<open>base\<close>, \<open>thr\<close>, \<open>env\<close>,
  \<open>mv0\<close>, \<open>mv1\<close>) are passed on as arguments.

  The reference \<^verbatim>\<open>ChannelState& P = useCh2 ? _ch2 : _ch1\<close> is read with \<open>primaryCh\<close>. The
  blocks work on a local copy of the primary channel, which \<open>setPrimaryCh\<close> stores back
  at the end of the block sequence; nothing in between reads \<open>_ch1\<close> or \<open>_ch2\<close> except
  through \<open>P\<close>.
\<close>

definition primaryCh :: "pipeline \<Rightarrow> ChannelState" where
  "primaryCh p = (if primaryChannel (cfg p) = CH2_A1 then ch2 p else ch1 p)"

definition setPrimaryCh :: "pipeline \<Rightarrow> ChannelState \<Rightarrow> pipeline" where
  "setPrimaryCh p C =
     (if primaryChannel (cfg p) = CH2_A1 then p\<lparr>ch2 := C\<rparr> else p\<lparr>ch1 := C\<rparr>)"

text \<open>
  \<^verbatim>\<open>const float base = max(P.envBaseline, 1e-6f);
  const float thr = _cfg.thrFactor * base;\<close>
\<close>

definition baseOf :: "ChannelState \<Rightarrow> real" where
  "baseOf C = max (envBaseline C) (f32 (1 / 1000000))"

definition thrOf :: "pipeline \<Rightarrow> ChannelState \<Rightarrow> real" where
  "thrOf p C = f32 (thrFactor (cfg p) * baseOf C)"

text \<open>
  Lines 129 to 135: the deadline moves on, the two counts are read (0 without an ADC)
  and converted, and both channels are conditioned.
  \<^verbatim>\<open>_nextSampleUs += _intervalUs;
  int16_t c0 = _ads ? _ads->readADC_SingleEnded(_cfg.adsChannel1) : 0;
  int16_t c1 = _ads ? _ads->readADC_SingleEnded(_cfg.adsChannel2) : 0;
  const float mv0 = countsToMilliVolts(c0);
  const float mv1 = countsToMilliVolts(c1);
  processOne(_ch1, mv0);
  processOne(_ch2, mv1);\<close>
\<close>

definition sampleStage :: "pipeline \<Rightarrow> tickIn \<Rightarrow> pipeline \<times> real \<times> real" where
  "sampleStage p inp =
     (let p1 = p\<lparr>nextSampleUs := nextSampleUs p + intervalUs p\<rparr>;
          c0 = (if ads p1 then adc0 inp else 0);
          c1 = (if ads p1 then adc1 inp else 0);
          mv0 = countsToMilliVolts p1 c0;
          mv1 = countsToMilliVolts p1 c1;
          p2 = p1\<lparr>ch1 := processOne p1 (ch1 p1) mv0\<rparr>;
          p3 = p2\<lparr>ch2 := processOne p2 (ch2 p2) mv1\<rparr>
      in (p3, mv0, mv1))"

text \<open>
  Lines 140 to 147: artifact detection on the primary channel, the crossing timestamp
  and peak detection. The result is the artifact flag, the pipeline and the primary
  channel.
  \<^verbatim>\<open>bool artifact = detectArtifact(P, mvP);
  _stat.artifact = artifact;
  ...
  const float env = P.env;
  const bool above = (env >= thr) && !artifact;
  if (above) P.lastCrossMs = nowMs;
  if (!artifact) peakDetectAndRR(P, nowMs);\<close>
\<close>

definition detectStage :: "pipeline \<Rightarrow> u32 \<Rightarrow> real \<Rightarrow> bool \<times> pipeline \<times> ChannelState" where
  "detectStage p now mvP =
     (let P = primaryCh p;
          (a, p1) = detectArtifact p P mvP;
          p2 = p1\<lparr>stat := (stat p1)\<lparr>artifact := a\<rparr>\<rparr>;
          above = (env P \<ge> thrOf p P \<and> \<not> a);
          P1 = (if above then P\<lparr>lastCrossMs := now\<rparr> else P);
          (p3, P2) = (if \<not> a then peakDetectAndRR p2 P1 now else (p2, P1))
      in (a, p3, P2))"

text \<open>
  Lines 148 to 152: the two state machines.
  \<^verbatim>\<open>const bool hypoNow = (P.lastEnvPeak < _cfg.hypopneaFrac * base) && !artifact;
  updateHypopneaFSM(nowMs, hypoNow);
  const uint32_t since = nowMs - P.lastCrossMs;
  const bool apneaNow = since >= (uint32_t)(_cfg.apneaMinSec * 1000.0f);
  updateApneaFSM(nowMs, apneaNow);\<close>
\<close>

definition hypoNowOf :: "pipeline \<Rightarrow> bool \<Rightarrow> real \<Rightarrow> ChannelState \<Rightarrow> bool" where
  "hypoNowOf p a base P = (lastEnvPeak P < f32 (hypopneaFrac (cfg p) * base) \<and> \<not> a)"

definition apneaNowOf :: "pipeline \<Rightarrow> u32 \<Rightarrow> ChannelState \<Rightarrow> bool" where
  "apneaNowOf p now P = (now - lastCrossMs P \<ge> toU32 (f32 (apneaMinSec (cfg p) * 1000)))"

definition fsmStage :: "pipeline \<Rightarrow> u32 \<Rightarrow> bool \<Rightarrow> real \<Rightarrow> ChannelState \<Rightarrow> pipeline" where
  "fsmStage p now a base P =
     (let p1 = updateHypopneaFSM p now (hypoNowOf p a base P)
      in updateApneaFSM p1 now (apneaNowOf p1 now P))"

text \<open>
  Lines 153 to 155: the status is published.
  \<^verbatim>\<open>_stat.signalOK = (nowMs - P.lastCrossMs) < (uint32_t)(2000);
  _stat.envPrimary = env; _stat.envBaselinePrimary = P.envBaseline; _stat.thresholdPrimary = thr;
  _stat.snrEstimate = base > 1e-6f ? (env / base) : 0.0f;\<close>
\<close>

definition publishStage ::
  "pipeline \<Rightarrow> u32 \<Rightarrow> ChannelState \<Rightarrow> real \<Rightarrow> real \<Rightarrow> real \<Rightarrow> pipeline" where
  "publishStage p now P e base thr =
     p\<lparr>stat := (stat p)\<lparr>signalOK := (now - lastCrossMs P < 2000),
            envPrimary := e, envBaselinePrimary := envBaseline P, thresholdPrimary := thr,
            snrEstimate := (if base > f32 (1 / 1000000) then f32 (e / base) else 0)\<rparr>\<rparr>"

text \<open>Lines 136 to 155: everything done on the primary channel.\<close>

definition tickPrimary :: "pipeline \<Rightarrow> u32 \<Rightarrow> real \<Rightarrow> pipeline" where
  "tickPrimary p now mvP =
     (let P = primaryCh p;
          (a, p1, P1) = detectStage p now mvP;
          p2 = fsmStage p1 now a (baseOf P) P1;
          p3 = publishStage p2 now P1 (env P) (baseOf P) (thrOf p P)
      in setPrimaryCh p3 P1)"

text \<open>
  \<^verbatim>\<open>void tick()\<close>. The tick returns at once while its deadline has not passed:
  \<open>(int32_t)(nowUs - _nextSampleUs) < 0\<close>. After the primary channel come
  \<open>pushTele(nowMs)\<close> and \<open>handleBurst(nowMs, mv0, mv1)\<close>.
\<close>

definition due :: "pipeline \<Rightarrow> tickIn \<Rightarrow> bool" where
  "due p inp = (\<not> sint (nowUs inp - nextSampleUs p) < 0)"

definition tick :: "pipeline \<Rightarrow> tickIn \<Rightarrow> pipeline" where
  "tick p inp =
     (if \<not> due p inp then p
      else
        let (p1, mv0, mv1) = sampleStage p inp;
            mvP = (if primaryChannel (cfg p1) = CH2_A1 then mv1 else mv0);
            p2 = tickPrimary p1 (nowMs inp) mvP;
            p3 = pushTele p2 (nowMs inp)
        in handleBurst p3 (nowMs inp) mv0 mv1)"

text \<open>A run of the main loop: one call of \<open>tick\<close> for each element of the list.\<close>

fun ticks :: "pipeline \<Rightarrow> tickIn list \<Rightarrow> pipeline" where
  "ticks p [] = p"
| "ticks p (inp # inps) = ticks (tick p inp) inps"

section \<open>The pipeline as constructed\<close>

text \<open>
  The default member initialisers of \<open>Config\<close>, \<open>ChannelState\<close> and \<open>BreathPipeline\<close>, and
  the initial values of the function-local statics. The object of the integration example
  is a global, so the telemetry slots, which have no initialiser, start zeroed.
\<close>

definition defaultConfig :: Config where
  "defaultConfig =
     \<lparr>fsProcHz = 100, useADS1115 = False, adsGain = GAIN_SIXTEEN, adsChannel1 = 0,
      adsChannel2 = 1, primaryChannel = CH2_A1, baselineTauSec = 5, antiRingTaps = 3,
      envTauSec = f32 0.3, minPeakDistanceSec = f32 0.6, refractorySec = f32 0.4,
      thrEmaTauSec = 60, thrFactor = f32 0.45, hypopneaFrac = 0.5, hypopneaMinSec = 10,
      apneaMinSec = 20,
      recoveryMinSec = 3, railMarginMV = 2, spikeDerivMV = 30, rmsBurstFactor = 3,
      burstFsHz = 1000, burstPreMs = 3000, burstPostMs = 3000\<rparr>"

definition zeroChannel :: ChannelState where
  "zeroChannel =
     \<lparr>dcBaseline = 0, maBuf = (\<lambda>i. 0), maIdx = 0, maFill = 0, env = 0, envBaseline = 0,
      lastPeakMs = 0, lastCrossMs = 0, lastEnvPeak = 0\<rparr>"

definition newPipeline :: pipeline where
  "newPipeline =
     \<lparr>ads = False, cfg = defaultConfig, ch1 = zeroChannel, ch2 = zeroChannel,
      stat = zeroStatus, intervalUs = 10000, nextSampleUs = 0,
      rrBuf = (\<lambda>i. 0), rrIdx = 0, rrFill = 0,
      tele = (\<lambda>i. Telemetry 0 0 False False False False 0 0), tlHead = 0, tlTail = 0,
      burstCh1 = (\<lambda>i. 0), burstCh2 = (\<lambda>i. 0), burstHead = 0, burstTail = 0,
      burstFill = 0, burstActive = False, burstPostRemain = 0,
      alphaDC = 0, alphaEnv = 0, alphaThr = 0, lsb_mV = 0.125, cb = False,
      prevEnv = 0, prevAbove = False, lastEventMs = 0, apneaActive_static = False,
      hypoStartMs = 0, hypoActive = False, delivered = []\<rparr>"

section \<open>Callers of the telemetry ring\<close>

text \<open>
  A producer that pushes one record per element of a list, the status of the moment and
  the timestamp given by the element, as \<open>tick\<close> does after publishing the status; and a
  consumer that calls \<open>popTelemetry\<close> up to \<open>n\<close> times, stopping at the first \<open>false\<close>, and
  collects the records it was handed.
\<close>

fun pushes :: "pipeline \<Rightarrow> (Status \<times> u32) list \<Rightarrow> pipeline" where
  "pushes p [] = p"
| "pushes p ((s, ts) # xs) = pushes (pushTele (p\<lparr>stat := s\<rparr>) ts) xs"

fun drain :: "nat \<Rightarrow> pipeline \<Rightarrow> Telemetry \<Rightarrow> Telemetry list \<times> pipeline" where
  "drain 0 p out = ([], p)"
| "drain (Suc n) p out =
     (case popTelemetry p out of
        (False, out', p') \<Rightarrow> ([], p')
      | (True, out', p') \<Rightarrow> (case drain n p' out' of (rs, p'') \<Rightarrow> (out' # rs, p'')))"

section \<open>Abstraction of the telemetry ring\<close>

text \<open>
  The records a ring holds, oldest first: \<open>n\<close> slots of the array \<open>f\<close> from index \<open>t\<close> on,
  wrapping at \<open>N\<close>. The telemetry ring holds the slots from \<open>_tlTail\<close> up to, not
  including, \<open>_tlHead\<close>. \<open>stamped i\<close> is a zero status pushed at timestamp \<open>i\<close>.
\<close>

definition ringList :: "nat \<Rightarrow> (nat \<Rightarrow> 'a) \<Rightarrow> nat \<Rightarrow> nat \<Rightarrow> 'a list" where
  "ringList N f t n = map (\<lambda>i. f ((t + i) mod N)) [0..<n]"

definition teleCount :: "pipeline \<Rightarrow> nat" where
  "teleCount p = (tlHead p + TELE_CAP - tlTail p) mod TELE_CAP"

definition teleContents :: "pipeline \<Rightarrow> Telemetry list" where
  "teleContents p = ringList TELE_CAP (tele p) (tlTail p) (teleCount p)"

definition teleInv :: "pipeline \<Rightarrow> bool" where
  "teleInv p = (tlHead p < TELE_CAP \<and> tlTail p < TELE_CAP)"

definition stamped :: "nat \<Rightarrow> Status \<times> u32" where
  "stamped i = (zeroStatus, word_of_nat i)"

section \<open>A caller of the burst ring\<close>

text \<open>
  \<open>pushBursts\<close> pushes a list of sample pairs, as successive ticks do through
  \<open>handleBurst\<close>. \<open>wrappedBurst\<close> is the constructed pipeline, configured for a pre and a
  post window of 320 ms each at 100 Hz (64 slots), after the 65 sample pairs
  \<open>(i, 1000 + i)\<close>, \<open>i\<close> from 1 to 65. \<open>callerBuf\<close> is an output buffer filled with -1.
\<close>

fun pushBursts :: "pipeline \<Rightarrow> (i16 \<times> i16) list \<Rightarrow> pipeline" where
  "pushBursts p [] = p"
| "pushBursts p ((c0, c1) # cs) = pushBursts (pushBurst p c0 c1) cs"

definition rampSample :: "nat \<Rightarrow> i16 \<times> i16" where
  "rampSample i = (word_of_nat i, word_of_nat (1000 + i))"

definition shortBurstConfig :: Config where
  "shortBurstConfig = defaultConfig\<lparr>burstPreMs := 320, burstPostMs := 320\<rparr>"

definition wrappedBurst :: pipeline where
  "wrappedBurst = pushBursts (newPipeline\<lparr>cfg := shortBurstConfig\<rparr>) (map rampSample [1..<66])"

definition callerBuf :: "nat \<Rightarrow> i16" where
  "callerBuf i = - 1"

section \<open>Events of a run\<close>

text \<open>
  The events delivered to the callback between an earlier state \<open>p\<close> and a later state
  \<open>p'\<close>, and the two families of events.
\<close>

definition newEvents :: "pipeline \<Rightarrow> pipeline \<Rightarrow> Event list" where
  "newEvents p p' = drop (length (delivered p)) (delivered p')"

definition isHypoEvent :: "Event \<Rightarrow> bool" where
  "isHypoEvent e = (etype e = HypopneaStart \<or> etype e = HypopneaEnd)"

definition isApneaEvent :: "Event \<Rightarrow> bool" where
  "isApneaEvent e = (etype e = ApneaStart \<or> etype e = ApneaEnd)"

section \<open>A silent sensor\<close>

text \<open>
  A channel on which nothing has been seen yet: the state a channel is constructed in,
  up to the position in the moving-average ring. A pipeline is \<open>quiet\<close> when both channels
  are, the artifact detector has last seen a zero envelope, and the configuration lets a
  zero sample pass the artifact checks and stay below the threshold.
\<close>

definition quietCh :: "ChannelState \<Rightarrow> bool" where
  "quietCh C =
     (dcBaseline C = 0 \<and> (\<forall>i. maBuf C i = 0) \<and> env C = 0 \<and> envBaseline C = 0 \<and>
      lastEnvPeak C = 0)"

definition quiet :: "pipeline \<Rightarrow> bool" where
  "quiet p =
     (quietCh (ch1 p) \<and> quietCh (ch2 p) \<and> prevEnv p = 0 \<and>
      railMarginMV (cfg p) < railMilliVolts p \<and> 0 \<le> spikeDerivMV (cfg p) \<and>
      0 \<le> rmsBurstFactor (cfg p) \<and> 0 < thrFactor (cfg p) \<and> 0 < hypopneaFrac (cfg p))"

text \<open>The count \<open>tick\<close> converts for the primary channel.\<close>

definition primaryCount :: "pipeline \<Rightarrow> tickIn \<Rightarrow> i16" where
  "primaryCount p inp =
     (if ads p then (if primaryChannel (cfg p) = CH2_A1 then adc1 inp else adc0 inp) else 0)"

section \<open>Properties of binary32 rounding\<close>

lemma pow2_powi: "pow2 e = 2 powi e"
  by (simp add: pow2_def power_int_def inverse_eq_divide power_one_over)

lemma pow2_pos: "0 < pow2 e"
  by (simp add: pow2_powi)

lemma pow2_add: "pow2 (a + b) = pow2 a * pow2 b"
  by (simp add: pow2_powi power_int_add)

lemma pow2_mono: "a \<le> b \<Longrightarrow> pow2 a \<le> pow2 b"
  by (simp add: pow2_powi power_int_increasing)

lemma pow2_strict_mono: "a < b \<Longrightarrow> pow2 a < pow2 b"
  by (simp add: pow2_powi power_int_strict_increasing)

lemma pow2_0: "pow2 0 = 1"
  by (simp add: pow2_def)

lemma rne_mono: "q \<le> q' \<Longrightarrow> rne q \<le> rne q'"
proof -
  assume le: "q \<le> q'"
  have fl: "\<lfloor>q\<rfloor> \<le> \<lfloor>q'\<rfloor>" using le by (rule floor_mono)
  show ?thesis
  proof (cases "\<lfloor>q\<rfloor> = \<lfloor>q'\<rfloor>")
    case True
    with le show ?thesis by (auto simp: rne_def Let_def)
  next
    case False
    with fl have "\<lfloor>q\<rfloor> + 1 \<le> \<lfloor>q'\<rfloor>" by simp
    moreover have "rne q \<le> \<lfloor>q\<rfloor> + 1" by (auto simp: rne_def Let_def)
    moreover have "\<lfloor>q'\<rfloor> \<le> rne q'" by (auto simp: rne_def Let_def)
    ultimately show ?thesis by linarith
  qed
qed

lemma rne_of_int: "rne (of_int n) = n"
  by (simp add: rne_def)

lemma rne_minus: "rne (- q) = - rne q"
proof (cases "q = of_int \<lfloor>q\<rfloor>")
  case True
  then obtain n where "q = of_int n" ..
  then have "rne (- q) = - n" "rne q = n"
    using rne_of_int [of "- n"] rne_of_int [of n] by simp_all
  then show ?thesis by simp
next
  case False
  define f where "f = \<lfloor>q\<rfloor>"
  define r where "r = q - of_int f"
  have "\<lceil>q\<rceil> = f + 1" using False by (simp add: ceiling_altdef f_def)
  moreover have "\<lfloor>- q\<rfloor> = - \<lceil>q\<rceil>" by (simp add: ceiling_def)
  ultimately have fl: "\<lfloor>- q\<rfloor> = - f - 1" by simp
  have r': "- q - of_int (- f - 1) = 1 - r" by (simp add: r_def)
  have ev: "even (- f - 1) = odd f" by simp
  have a: "rne (- q) =
      (if 1 - r < 1 / 2 then - f - 1 else if 1 / 2 < 1 - r then - f
       else if odd f then - f - 1 else - f)"
    unfolding rne_def Let_def fl r' ev by simp
  have b: "rne q = (if r < 1 / 2 then f else if 1 / 2 < r then f + 1
       else if even f then f else f + 1)"
    unfolding rne_def Let_def f_def [symmetric] r_def [symmetric] by simp
  show ?thesis
  proof (cases "r < 1 / 2")
    case True
    then show ?thesis unfolding a b by simp
  next
    case nl: False
    show ?thesis
    proof (cases "1 / 2 < r")
      case True
      then show ?thesis unfolding a b by simp
    next
      case False
      with nl have "r = 1 / 2" by simp
      then show ?thesis unfolding a b by simp
    qed
  qed
qed

lemma expoFrom_bounds: "e0 \<le> expoFrom n e0 a \<and> expoFrom n e0 a \<le> e0 + int n"
proof (induction n arbitrary: e0)
  case 0
  show ?case by simp
next
  case (Suc n)
  from Suc [of "e0 + 1"] show ?case by auto
qed

lemma expoFrom_lower: "pow2 e0 \<le> a \<Longrightarrow> pow2 (expoFrom n e0 a) \<le> a"
  by (induction n arbitrary: e0) auto

lemma expoFrom_lower': "expoFrom n e0 a \<noteq> e0 \<Longrightarrow> pow2 (expoFrom n e0 a) \<le> a"
  by (cases n) (auto intro: expoFrom_lower split: if_splits)

lemma expoFrom_upper: "expoFrom n e0 a < e0 + int n \<Longrightarrow> a < pow2 (expoFrom n e0 a + 1)"
proof (induction n arbitrary: e0)
  case 0
  then show ?case by simp
next
  case (Suc n)
  show ?case
  proof (cases "a < pow2 (e0 + 1)")
    case True
    then show ?thesis by simp
  next
    case False
    with Suc.prems have "expoFrom n (e0 + 1) a < (e0 + 1) + int n" by simp
    from Suc.IH [OF this] False show ?thesis by simp
  qed
qed

lemma expoFrom_mono: "a \<le> b \<Longrightarrow> expoFrom n e0 a \<le> expoFrom n e0 b"
proof (induction n arbitrary: e0)
  case 0
  show ?case by simp
next
  case (Suc n)
  show ?case
  proof (cases "b < pow2 (e0 + 1)")
    case True
    with Suc.prems show ?thesis by simp
  next
    case False
    show ?thesis
    proof (cases "a < pow2 (e0 + 1)")
      case True
      with False expoFrom_bounds [of "e0 + 1" n b] show ?thesis by simp
    next
      case na: False
      with False Suc.IH [OF Suc.prems, of "e0 + 1"] show ?thesis by simp
    qed
  qed
qed

lemma expoFrom_eq:
  "e0 \<le> e \<Longrightarrow> e \<le> e0 + int n \<Longrightarrow> (e0 < e \<longrightarrow> pow2 e \<le> a) \<Longrightarrow>
   (e < e0 + int n \<longrightarrow> a < pow2 (e + 1)) \<Longrightarrow> expoFrom n e0 a = e"
proof (induction n arbitrary: e0)
  case 0
  then show ?case by simp
next
  case (Suc n)
  show ?case
  proof (cases "e = e0")
    case True
    with Suc.prems show ?thesis by simp
  next
    case False
    with Suc.prems have lt: "e0 + 1 \<le> e" and ge: "pow2 e \<le> a" by simp_all
    from lt have "pow2 (e0 + 1) \<le> pow2 e" by (rule pow2_mono)
    with ge have na: "\<not> a < pow2 (e0 + 1)" by simp
    have "expoFrom n (e0 + 1) a = e"
      using lt Suc.prems ge by (intro Suc.IH) auto
    with na show ?thesis by simp
  qed
qed

lemma expo_range: "- 126 \<le> expo x \<and> expo x \<le> 127"
  using expoFrom_bounds [of "- 126" 253 "\<bar>x\<bar>"] by (simp add: expo_def)

lemma expo_lower: "- 126 < expo x \<Longrightarrow> pow2 (expo x) \<le> \<bar>x\<bar>"
  using expoFrom_lower' [of 253 "- 126" "\<bar>x\<bar>"] by (simp add: expo_def)

lemma expo_upper: "expo x < 127 \<Longrightarrow> \<bar>x\<bar> < pow2 (expo x + 1)"
  using expoFrom_upper [of 253 "- 126" "\<bar>x\<bar>"] by (simp add: expo_def)

lemma expo_mono: "\<bar>x\<bar> \<le> \<bar>y\<bar> \<Longrightarrow> expo x \<le> expo y"
  by (simp add: expo_def expoFrom_mono)

lemma expo_minus: "expo (- x) = expo x"
  by (simp add: expo_def)

lemma expo_eq:
  "- 126 \<le> e \<Longrightarrow> e \<le> 127 \<Longrightarrow> (- 126 < e \<longrightarrow> pow2 e \<le> \<bar>x\<bar>) \<Longrightarrow>
   (e < 127 \<longrightarrow> \<bar>x\<bar> < pow2 (e + 1)) \<Longrightarrow> expo x = e"
  unfolding expo_def by (rule expoFrom_eq) simp_all

lemma f32_at:
  "- 126 \<le> e \<Longrightarrow> e \<le> 127 \<Longrightarrow> (- 126 < e \<longrightarrow> pow2 e \<le> \<bar>x\<bar>) \<Longrightarrow>
   (e < 127 \<longrightarrow> \<bar>x\<bar> < pow2 (e + 1)) \<Longrightarrow>
   f32 x = of_int (rne (x / pow2 (e - 23))) * pow2 (e - 23)"
  by (simp add: f32_def Let_def expo_eq)

lemma f32_0: "f32 0 = 0"
  by (simp add: f32_def Let_def rne_def)

lemma f32_minus: "f32 (- x) = - f32 x"
  by (simp add: f32_def Let_def expo_minus rne_minus)

lemma rne_nonneg: "0 \<le> q \<Longrightarrow> 0 \<le> rne q"
  using rne_mono [of 0 q] rne_of_int [of 0] by simp

lemma f32_nonneg: "0 \<le> x \<Longrightarrow> 0 \<le> f32 x"
  by (simp add: f32_def Let_def pow2_pos less_imp_le rne_nonneg)

lemma pow2_split: "pow2 e = 2 ^ 23 * pow2 (e - 23)"
proof -
  have "pow2 e = pow2 (23 + (e - 23))" by simp
  also have "\<dots> = pow2 23 * pow2 (e - 23)" by (rule pow2_add)
  finally show ?thesis by (simp add: pow2_def)
qed

lemma f32_lower:
  assumes "0 \<le> x" "- 126 < expo x"
  shows "pow2 (expo x) \<le> f32 x"
proof -
  let ?u = "pow2 (expo x - 23)"
  have u: "0 < ?u" by (rule pow2_pos)
  from expo_lower [OF assms(2)] assms(1) have "pow2 (expo x) \<le> x" by simp
  then have "2 ^ 23 * ?u \<le> x" using pow2_split [of "expo x"] by simp
  then have "of_int (2 ^ 23) \<le> x / ?u" using u by (simp add: pos_le_divide_eq)
  then have "rne (of_int (2 ^ 23)) \<le> rne (x / ?u)" by (rule rne_mono)
  then have "2 ^ 23 \<le> rne (x / ?u)" by (simp only: rne_of_int)
  then have "(of_int (2 ^ 23) :: real) \<le> of_int (rne (x / ?u))" by (simp only: of_int_le_iff)
  then have "(2 ^ 23 :: real) \<le> of_int (rne (x / ?u))" by simp
  then have "2 ^ 23 * ?u \<le> of_int (rne (x / ?u)) * ?u"
    using u by (simp only: mult_le_cancel_right_pos)
  then show ?thesis using pow2_split [of "expo x"] by (simp add: f32_def Let_def)
qed

lemma f32_upper:
  assumes "0 \<le> x" "expo x < 127"
  shows "f32 x \<le> pow2 (expo x + 1)"
proof -
  let ?u = "pow2 (expo x - 23)"
  have u: "0 < ?u" by (rule pow2_pos)
  have sp: "pow2 (expo x + 1) = 2 ^ 24 * ?u"
    using pow2_split [of "expo x + 1"] pow2_add [of 1 "expo x - 23"] by (simp add: pow2_def)
  from expo_upper [OF assms(2)] assms(1) have "x < pow2 (expo x + 1)" by simp
  then have "x \<le> 2 ^ 24 * ?u" using sp by simp
  then have "x / ?u \<le> of_int (2 ^ 24)" using u by (simp add: pos_divide_le_eq)
  then have "rne (x / ?u) \<le> rne (of_int (2 ^ 24))" by (rule rne_mono)
  then have "rne (x / ?u) \<le> 2 ^ 24" by (simp only: rne_of_int)
  then have "(of_int (rne (x / ?u)) :: real) \<le> of_int (2 ^ 24)" by (simp only: of_int_le_iff)
  then have "of_int (rne (x / ?u)) \<le> (2 ^ 24 :: real)" by simp
  then have "of_int (rne (x / ?u)) * ?u \<le> 2 ^ 24 * ?u"
    using u by (simp only: mult_le_cancel_right_pos)
  then show ?thesis using sp by (simp add: f32_def Let_def)
qed

lemma f32_mono_nonneg:
  assumes "0 \<le> x" "x \<le> y"
  shows "f32 x \<le> f32 y"
proof -
  from assms have y: "0 \<le> y" by simp
  from assms have le: "expo x \<le> expo y" by (intro expo_mono) simp
  show ?thesis
  proof (cases "expo x = expo y")
    case True
    have u: "0 < pow2 (expo y - 23)" by (rule pow2_pos)
    from assms u have "x / pow2 (expo y - 23) \<le> y / pow2 (expo y - 23)"
      by (simp add: divide_right_mono)
    then have "rne (x / pow2 (expo y - 23)) \<le> rne (y / pow2 (expo y - 23))" by (rule rne_mono)
    then have "(of_int (rne (x / pow2 (expo y - 23))) :: real) \<le> of_int (rne (y / pow2 (expo y - 23)))"
      by simp
    then show ?thesis
      using u by (simp add: f32_def Let_def True mult_right_mono)
  next
    case False
    with le have lt: "expo x < expo y" by simp
    with expo_range [of y] have x127: "expo x < 127" by simp
    from lt expo_range [of x] have y126: "- 126 < expo y" by simp
    have "f32 x \<le> pow2 (expo x + 1)" using assms(1) x127 by (rule f32_upper)
    also have "\<dots> \<le> pow2 (expo y)" using lt by (intro pow2_mono) simp
    also have "\<dots> \<le> f32 y" using y y126 by (rule f32_lower)
    finally show ?thesis .
  qed
qed

lemma f32_mono: "x \<le> y \<Longrightarrow> f32 x \<le> f32 y"
proof -
  assume le: "x \<le> y"
  show ?thesis
  proof (cases "0 \<le> x")
    case True
    then show ?thesis using le by (rule f32_mono_nonneg)
  next
    case neg: False
    show ?thesis
    proof (cases "0 \<le> y")
      case True
      from neg have "0 \<le> f32 (- x)" by (intro f32_nonneg) simp
      then have "f32 x \<le> 0" by (simp add: f32_minus)
      also have "0 \<le> f32 y" using True by (rule f32_nonneg)
      finally show ?thesis .
    next
      case False
      with le have "f32 (- y) \<le> f32 (- x)" by (intro f32_mono_nonneg) simp_all
      then show ?thesis by (simp add: f32_minus)
    qed
  qed
qed

lemma f32_pow2: "- 126 \<le> e \<Longrightarrow> e \<le> 127 \<Longrightarrow> f32 (pow2 e) = pow2 e"
proof -
  assume e: "- 126 \<le> e" "e \<le> 127"
  have p: "\<bar>pow2 e\<bar> = pow2 e" using pow2_pos [of e] by simp
  have "f32 (pow2 e) = of_int (rne (pow2 e / pow2 (e - 23))) * pow2 (e - 23)"
    using e by (intro f32_at) (simp_all add: p pow2_strict_mono)
  moreover have "pow2 e / pow2 (e - 23) = of_int (2 ^ 23)"
    using pow2_split [of e] pow2_pos [of "e - 23"] by simp
  ultimately have "f32 (pow2 e) = of_int (2 ^ 23) * pow2 (e - 23)"
    by (simp only: rne_of_int)
  then show ?thesis using pow2_split [of e] by simp
qed

lemma f32_1: "f32 1 = 1"
  using f32_pow2 [of 0] by (simp add: pow2_0)

lemma f32_near_one:
  assumes "1 - pow2 (- 25) < x" "x \<le> 1"
  shows "f32 x = 1"
proof (cases "x = 1")
  case True
  then show ?thesis by (simp add: f32_1)
next
  case False
  with assms have lt: "x < 1" by simp
  from assms have gt: "1 - 1 / 2 ^ 25 < x" by (simp add: pow2_def)
  then have half: "1 / 2 \<le> x" by simp
  have at: "f32 x = of_int (rne (x / pow2 (- 1 - 23))) * pow2 (- 1 - 23)"
    using lt half by (intro f32_at) (simp_all add: pow2_def)
  have q: "x / pow2 (- 1 - 23) = x * 2 ^ 24" by (simp add: pow2_def)
  have lo: "2 ^ 24 - 1 / 2 < x * 2 ^ 24" using gt by simp
  have hi: "x * 2 ^ 24 < 2 ^ 24" using lt by simp
  have fl: "\<lfloor>x * 2 ^ 24\<rfloor> = 2 ^ 24 - 1"
    using lo hi by (intro floor_unique) simp_all
  have "rne (x * 2 ^ 24) = 2 ^ 24"
    using lo unfolding rne_def Let_def fl by simp
  then show ?thesis unfolding at q by (simp add: pow2_def)
qed

lemma f32_100: "f32 100 = 100"
proof -
  have "f32 100 = of_int (rne (100 / pow2 (6 - 23))) * pow2 (6 - 23)"
    by (intro f32_at) (simp_all add: pow2_def)
  moreover have "100 / pow2 (6 - 23) = of_int 13107200" by (simp add: pow2_def)
  ultimately have "f32 100 = of_int 13107200 * pow2 (6 - 23)" by (simp only: rne_of_int)
  then show ?thesis by (simp add: pow2_def)
qed

lemma f32_3_256: "f32 (3 / 256) = 3 / 256"
proof -
  have "f32 (3 / 256) = of_int (rne ((3 / 256) / pow2 (- 7 - 23))) * pow2 (- 7 - 23)"
    by (intro f32_at) (simp_all add: pow2_def)
  moreover have "(3 / 256) / pow2 (- 7 - 23) = of_int 12582912" by (simp add: pow2_def)
  ultimately have "f32 (3 / 256) = of_int 12582912 * pow2 (- 7 - 23)" by (simp only: rne_of_int)
  then show ?thesis by (simp add: pow2_def)
qed

lemma f32_640: "f32 640 = 640"
proof -
  have "f32 640 = of_int (rne (640 / pow2 (9 - 23))) * pow2 (9 - 23)"
    by (intro f32_at) (simp_all add: pow2_def)
  moreover have "640 / pow2 (9 - 23) = of_int 10485760" by (simp add: pow2_def)
  ultimately have "f32 640 = of_int 10485760 * pow2 (9 - 23)" by (simp only: rne_of_int)
  then show ?thesis by (simp add: pow2_def)
qed

lemma f32_tenth: "f32 (1 / 10) = 13421773 / 134217728"
proof -
  have "f32 (1 / 10) = of_int (rne ((1 / 10) / pow2 (- 4 - 23))) * pow2 (- 4 - 23)"
    by (intro f32_at) (simp_all add: pow2_def)
  moreover have "rne ((1 / 10) / pow2 (- 4 - 23)) = 13421773"
    by (simp add: pow2_def rne_def Let_def)
  ultimately show ?thesis by (simp add: pow2_def)
qed

lemma f32_64ish: "f32 (67108865 / 1048576) = 64"
proof -
  have "f32 (67108865 / 1048576) =
      of_int (rne ((67108865 / 1048576) / pow2 (6 - 23))) * pow2 (6 - 23)"
    by (intro f32_at) (simp_all add: pow2_def)
  moreover have "rne ((67108865 / 1048576) / pow2 (6 - 23)) = 8388608"
    by (simp add: pow2_def rne_def Let_def)
  ultimately show ?thesis by (simp add: pow2_def)
qed

section \<open>The smoothing coefficient\<close>

lemma max_one_u32: "0 < fs \<Longrightarrow> max 1 fs = (fs :: u32)"
  by (simp add: max_def word_le_nat_alt word_less_nat_alt)

lemma unat_max_one: "1 \<le> real (unat (max 1 (fs :: u32)))"
proof -
  have "0 < max 1 fs" by (simp add: max_def word_less_nat_alt word_le_nat_alt) 
  then have "0 < unat (max 1 fs)" by (simp add: word_less_nat_alt)
  then have "1 \<le> unat (max 1 fs)" by simp
  then show ?thesis by (simp only: of_nat_1 [symmetric, where 'a = real] of_nat_le_iff)
qed

lemma dt_range: "0 \<le> f32 (1 / f32 (real (unat (max 1 (fs :: u32)))))"
proof -
  have "f32 1 \<le> f32 (real (unat (max 1 fs)))" using unat_max_one by (rule f32_mono)
  then have "0 < f32 (real (unat (max 1 fs)))" by (simp add: f32_1)
  then have "0 \<le> 1 / f32 (real (unat (max 1 fs)))" by simp
  then show ?thesis by (rule f32_nonneg)
qed

lemma expf_range: "x \<le> 0 \<Longrightarrow> 0 \<le> expf x \<and> expf x \<le> 1"
proof -
  assume "x \<le> 0"
  then have "exp x \<le> 1" by simp
  then have "f32 (exp x) \<le> f32 1" by (rule f32_mono)
  moreover have "0 \<le> f32 (exp x)" by (intro f32_nonneg) simp
  ultimately show ?thesis by (simp add: expf_def f32_1)
qed

lemma expf_mono: "x \<le> y \<Longrightarrow> expf x \<le> expf y"
  unfolding expf_def by (intro f32_mono) simp

lemma alpha_step_range:
  assumes "0 \<le> dt" "0 < tau"
  shows "0 \<le> f32 (1 - expf (f32 (- dt / tau))) \<and> f32 (1 - expf (f32 (- dt / tau))) \<le> 1"
proof -
  from assms have "- dt / tau \<le> 0" by (simp add: divide_nonpos_pos)
  then have "f32 (- dt / tau) \<le> f32 0" by (rule f32_mono)
  then have "f32 (- dt / tau) \<le> 0" by (simp add: f32_0)
  from expf_range [OF this] have e: "0 \<le> 1 - expf (f32 (- dt / tau))"
    "1 - expf (f32 (- dt / tau)) \<le> 1" by simp_all
  from e(1) have "0 \<le> f32 (1 - expf (f32 (- dt / tau)))" by (rule f32_nonneg)
  moreover from e(2) have "f32 (1 - expf (f32 (- dt / tau))) \<le> f32 1" by (rule f32_mono)
  ultimately show ?thesis by (simp add: f32_1)
qed

lemma alpha_step_mono:
  assumes "0 \<le> dt" "0 < t1" "t1 \<le> t2"
  shows "f32 (1 - expf (f32 (- dt / t2))) \<le> f32 (1 - expf (f32 (- dt / t1)))"
proof -
  from assms have "dt / t2 \<le> dt / t1" by (intro divide_left_mono) simp_all
  then have "- dt / t1 \<le> - dt / t2" by simp
  then have "f32 (- dt / t1) \<le> f32 (- dt / t2)" by (rule f32_mono)
  then have "expf (f32 (- dt / t1)) \<le> expf (f32 (- dt / t2))" by (rule expf_mono)
  then have "1 - expf (f32 (- dt / t2)) \<le> 1 - expf (f32 (- dt / t1))" by simp
  then show ?thesis by (rule f32_mono)
qed

text \<open>
  Claim C8, as amended. The smoothing coefficient is 1 for every non-positive time
  constant. For a positive time constant and a positive rate it is the binary32 value of
  \<open>1 - expf (- (1 / rate) / tau)\<close>, every operation rounded; it lies in the closed
  interval from 0 to 1, and it does not decrease as the time constant shrinks at a fixed
  rate.
\<close>

theorem alphaFromTau_binary32:
  "(tau \<le> 0 \<longrightarrow> alphaFromTau tau fs = 1) \<and>
   (0 < tau \<and> 0 < fs \<longrightarrow>
      alphaFromTau tau fs = f32 (1 - expf (f32 (- f32 (1 / f32 (real (unat fs))) / tau))) \<and>
      0 \<le> alphaFromTau tau fs \<and> alphaFromTau tau fs \<le> 1) \<and>
   (0 < t1 \<and> t1 \<le> t2 \<and> 0 < fs \<longrightarrow> alphaFromTau t2 fs \<le> alphaFromTau t1 fs)"
proof (intro conjI impI)
  assume "tau \<le> 0"
  then show "alphaFromTau tau fs = 1" by (simp add: alphaFromTau_def)
next
  assume h: "0 < tau \<and> 0 < fs"
  then show "alphaFromTau tau fs = f32 (1 - expf (f32 (- f32 (1 / f32 (real (unat fs))) / tau)))"
    by (simp add: alphaFromTau_def max_one_u32)
  from h alpha_step_range [OF dt_range [of fs], of tau]
  show "0 \<le> alphaFromTau tau fs" "alphaFromTau tau fs \<le> 1"
    by (simp_all add: alphaFromTau_def)
next
  assume h: "0 < t1 \<and> t1 \<le> t2 \<and> 0 < fs"
  with alpha_step_mono [OF dt_range [of fs], of t1 t2]
  show "alphaFromTau t2 fs \<le> alphaFromTau t1 fs"
    by (simp add: alphaFromTau_def)
qed

lemma exp_ge_pow2: "(2::real) ^ n \<le> exp (real n)"
proof -
  have "(2::real) \<le> exp 1" using exp_ge_add_one_self [of 1] by simp
  then have "(2::real) ^ n \<le> exp 1 ^ n" by (intro power_mono) simp_all
  also have "\<dots> = exp (real n)" by (simp add: exp_of_nat_mult [symmetric])
  finally show ?thesis .
qed

lemma dt_100_lower: "pow2 (- 7) \<le> f32 (1 / f32 (real (unat (max 1 (100 :: u32)))))"
proof -
  have "pow2 (- 7) \<le> (1 / 100 :: real)" by (simp add: pow2_def)
  then have "f32 (pow2 (- 7)) \<le> f32 (1 / 100)" by (rule f32_mono)
  then show ?thesis by (simp add: f32_pow2 f32_100)
qed

lemma alpha_saturates:
  assumes "0 < tau" "tau \<le> 1 / 10000"
  shows "alphaFromTau tau 100 = 1"
proof -
  define dt where "dt = f32 (1 / f32 (real (unat (max 1 (100 :: u32)))))"
  have dt: "pow2 (- 7) \<le> dt" unfolding dt_def by (rule dt_100_lower)
  then have dt0: "0 \<le> dt" using pow2_pos [of "- 7"] by linarith
  have "64 * tau \<le> 1 / 128" using assms by simp
  also have "\<dots> \<le> dt" using dt by (simp add: pow2_def)
  finally have "64 \<le> dt / tau" using assms by (simp add: pos_le_divide_eq)
  then have "- dt / tau \<le> - pow2 6" by (simp add: pow2_def)
  then have "f32 (- dt / tau) \<le> f32 (- pow2 6)" by (rule f32_mono)
  then have q: "f32 (- dt / tau) \<le> - 64" by (simp add: f32_minus f32_pow2) (simp add: pow2_def)
  then have "exp (f32 (- dt / tau)) \<le> exp (- 64)" by simp
  also have "exp (- 64 :: real) = 1 / exp (real 64)" by (simp add: exp_minus inverse_eq_divide)
  also have "\<dots> \<le> 1 / 2 ^ 64"
    using exp_ge_pow2 [of 64] by (intro divide_left_mono) simp_all
  also have "\<dots> = pow2 (- 64)" by (simp add: pow2_def)
  finally have "f32 (exp (f32 (- dt / tau))) \<le> f32 (pow2 (- 64))" by (rule f32_mono)
  then have hi: "expf (f32 (- dt / tau)) \<le> pow2 (- 64)" by (simp add: expf_def f32_pow2)
  have lo: "0 \<le> expf (f32 (- dt / tau))" unfolding expf_def by (intro f32_nonneg) simp
  have "pow2 (- 64) < pow2 (- 25)" by (rule pow2_strict_mono) simp
  with hi have "1 - pow2 (- 25) < 1 - expf (f32 (- dt / tau))" by simp
  moreover from lo have "1 - expf (f32 (- dt / tau)) \<le> 1" by simp
  ultimately have "f32 (1 - expf (f32 (- dt / tau))) = 1" by (rule f32_near_one)
  with assms show ?thesis by (simp add: alphaFromTau_def dt_def)
qed

lemma alpha_vanishes:
  assumes "1000000 \<le> tau"
  shows "alphaFromTau tau 100 = 0"
proof -
  define dt where "dt = f32 (1 / f32 (real (unat (max 1 (100 :: u32)))))"
  have "f32 (1 / 100) \<le> f32 (3 / 256)" by (rule f32_mono) simp
  then have dt: "dt \<le> 3 / 256" by (simp add: dt_def f32_100 f32_3_256)
  have dt0: "0 \<le> dt" unfolding dt_def by (rule dt_range)
  from assms have tau: "0 < tau" by simp
  have "dt \<le> pow2 (- 26) * tau"
  proof -
    have "3 / 256 \<le> pow2 (- 26) * 1000000" by (simp add: pow2_def)
    also have "\<dots> \<le> pow2 (- 26) * tau"
      using assms pow2_pos [of "- 26"] by (simp only: mult_le_cancel_left_pos)
    finally show ?thesis using dt by simp
  qed
  then have "dt / tau \<le> pow2 (- 26)" using tau by (simp add: pos_divide_le_eq)
  then have "- pow2 (- 26) \<le> - dt / tau" by simp
  then have "f32 (- pow2 (- 26)) \<le> f32 (- dt / tau)" by (rule f32_mono)
  then have lo: "- pow2 (- 26) \<le> f32 (- dt / tau)" by (simp add: f32_minus f32_pow2)
  have "- dt / tau \<le> 0" using dt0 tau by (simp add: divide_nonpos_pos)
  then have "f32 (- dt / tau) \<le> f32 0" by (rule f32_mono)
  then have hi: "f32 (- dt / tau) \<le> 0" by (simp add: f32_0)
  have "pow2 (- 26) < pow2 (- 25)" by (rule pow2_strict_mono) simp
  with lo have "1 - pow2 (- 25) < 1 + f32 (- dt / tau)" by simp
  also have "\<dots> \<le> exp (f32 (- dt / tau))" by (rule exp_ge_add_one_self)
  finally have a: "1 - pow2 (- 25) < exp (f32 (- dt / tau))" .
  from hi have b: "exp (f32 (- dt / tau)) \<le> 1" by simp
  from a b have "expf (f32 (- dt / tau)) = 1" unfolding expf_def by (rule f32_near_one)
  with tau show ?thesis by (simp add: alphaFromTau_def dt_def f32_0)
qed

theorem alphaFromTau_binary32_witness:
  "alphaFromTau 0 100 = 1 \<and>
   alphaFromTau 5 100 = f32 (1 - expf (f32 (- f32 (1 / f32 (real (unat (100 :: u32)))) / 5))) \<and>
   0 \<le> alphaFromTau 5 100 \<and> alphaFromTau 5 100 \<le> 1 \<and>
   alphaFromTau 60 100 \<le> alphaFromTau 5 100"
  using alphaFromTau_binary32 [of 0 100 5 60] alphaFromTau_binary32 [of 5 100 5 60]
  by simp

text \<open>
  The claim as stated has the coefficient strictly between 0 and 1 and strictly
  increasing as the time constant shrinks. In binary32 both ends are reached and the
  coefficient is flat between nearby time constants: at 100 Hz it is exactly 1 for the
  (representable) time constants \<open>1 / 16384\<close> and \<open>1 / 32768\<close> seconds, and exactly 0
  for \<open>1048576\<close> seconds.
\<close>

theorem alphaFromTau_strict_counterexample:
  "(0 :: real) < 1 / 16384 \<and> (0 :: u32) < 100 \<and> alphaFromTau (1 / 16384) 100 = 1 \<and>
   alphaFromTau 1048576 100 = 0 \<and>
   (1 / 32768 :: real) < 1 / 16384 \<and> alphaFromTau (1 / 32768) 100 = alphaFromTau (1 / 16384) 100"
  using alpha_saturates [of "1 / 16384"] alpha_saturates [of "1 / 32768"]
    alpha_vanishes [of 1048576]
  by simp

section \<open>The telemetry ring\<close>

lemma mod_wrap: "x < 2 * n \<Longrightarrow> x mod n = (if x < n then x else x - (n::nat))"
  by (simp add: mod_if)

lemma length_ringList: "length (ringList N f t n) = n"
  by (simp add: ringList_def)

lemma ringList_Suc: "ringList N f t (Suc n) = ringList N f t n @ [f ((t + n) mod N)]"
  by (simp add: ringList_def)

lemma ringList_Suc_front:
  "ringList N f t (Suc n) = f (t mod N) # ringList N f ((t + 1) mod N) n"
proof -
  have "[0..<Suc n] = 0 # map Suc [0..<n]"
    by (simp add: upt_conv_Cons map_Suc_upt del: upt_Suc)
  then have "ringList N f t (Suc n) = f (t mod N) # map (\<lambda>i. f ((t + Suc i) mod N)) [0..<n]"
    by (simp add: ringList_def comp_def del: upt_Suc)
  moreover have "\<And>i. (t + Suc i) mod N = ((t + 1) mod N + i) mod N"
    by (simp add: mod_add_left_eq)
  ultimately show ?thesis by (simp add: ringList_def)
qed

lemma ring_index_neq:
  assumes "i < c" "c < N"
  shows "(t + i) mod N \<noteq> (t + c) mod (N::nat)"
proof
  assume "(t + i) mod N = (t + c) mod N"
  then have "(t + c) mod N = (t + i) mod N" by simp
  with assms have "N dvd (t + c) - (t + i)"
    by (simp add: mod_eq_dvd_iff_nat)
  then have "N dvd c - i" by simp
  with assms show False by (auto dest: dvd_imp_le)
qed

lemma ringList_upd_outside:
  assumes "n \<le> c" "c < N"
  shows "ringList N (f((t + c) mod N := x)) t n = ringList N f t n"
  using assms ring_index_neq [of _ c N t] by (simp add: ringList_def)

lemma pushTele_tele: "tele (pushTele p ts) = (tele p)(tlHead p := snapshot (stat p) ts)"
  by (simp add: pushTele_def Let_def)

lemma pushTele_tlHead: "tlHead (pushTele p ts) = (tlHead p + 1) mod TELE_CAP"
  by (simp add: pushTele_def Let_def)

lemma pushTele_tlTail:
  "tlTail (pushTele p ts) =
     (if (tlHead p + 1) mod TELE_CAP = tlTail p then (tlTail p + 1) mod TELE_CAP else tlTail p)"
  by (simp add: pushTele_def Let_def)

lemma teleInv_pushTele: "teleInv p \<Longrightarrow> teleInv (pushTele p ts)"
  by (simp add: teleInv_def pushTele_tlHead pushTele_tlTail TELE_CAP_def)

lemma teleCount_less: "teleCount p < TELE_CAP"
  by (simp add: teleCount_def TELE_CAP_def)

lemma tlHead_eq: "teleInv p \<Longrightarrow> tlHead p = (tlTail p + teleCount p) mod TELE_CAP"
  by (auto simp: teleInv_def teleCount_def TELE_CAP_def mod_wrap)

lemma full_iff: "teleInv p \<Longrightarrow> ((tlHead p + 1) mod TELE_CAP = tlTail p) = (teleCount p = TELE_CAP - 1)"
  by (auto simp: teleInv_def teleCount_def TELE_CAP_def mod_wrap split: if_splits)

lemma teleCount_pushTele:
  "teleInv p \<Longrightarrow> teleCount (pushTele p ts) =
     (if teleCount p = TELE_CAP - 1 then TELE_CAP - 1 else teleCount p + 1)"
  unfolding teleCount_def [of "pushTele p ts"] pushTele_tlHead pushTele_tlTail full_iff
  by (auto simp: teleInv_def teleCount_def TELE_CAP_def mod_wrap split: if_splits)

lemma teleContents_pushTele:
  assumes inv: "teleInv p"
  shows "teleContents (pushTele p ts) =
     (if teleCount p = TELE_CAP - 1 then tl (teleContents p) else teleContents p)
       @ [snapshot (stat p) ts]"
proof -
  define f where "f = tele p"
  define x where "x = snapshot (stat p) ts"
  define t where "t = tlTail p"
  define c where "c = teleCount p"
  have h: "tlHead p = (t + c) mod TELE_CAP"
    unfolding t_def c_def by (rule tlHead_eq [OF inv])
  have c: "c < TELE_CAP" unfolding c_def by (rule teleCount_less)
  have new: "teleContents (pushTele p ts) =
      ringList TELE_CAP (f((t + c) mod TELE_CAP := x)) (tlTail (pushTele p ts))
        (teleCount (pushTele p ts))"
    by (simp only: teleContents_def pushTele_tele f_def x_def h)
  have old: "teleContents p = ringList TELE_CAP f t c"
    by (simp only: teleContents_def f_def t_def c_def)
  show ?thesis
  proof (cases "c = TELE_CAP - 1")
    case False
    with full_iff [OF inv] have t': "tlTail (pushTele p ts) = t"
      by (simp add: pushTele_tlTail c_def t_def)
    from False inv have n: "teleCount (pushTele p ts) = Suc c"
      by (simp add: teleCount_pushTele c_def)
    have "ringList TELE_CAP (f((t + c) mod TELE_CAP := x)) t (Suc c) =
          ringList TELE_CAP (f((t + c) mod TELE_CAP := x)) t c @ [x]"
      by (simp only: ringList_Suc fun_upd_same)
    also have "\<dots> = ringList TELE_CAP f t c @ [x]"
      using c by (simp only: ringList_upd_outside [OF order_refl c])
    finally show ?thesis
      using False by (simp only: new old t' n c_def [symmetric] x_def [symmetric] if_False)
  next
    case True
    define u where "u = (t + 1) mod TELE_CAP"
    from True full_iff [OF inv] have t': "tlTail (pushTele p ts) = u"
      by (simp add: pushTele_tlTail c_def t_def u_def)
    from True inv have n: "teleCount (pushTele p ts) = Suc (TELE_CAP - 2)"
      by (simp add: teleCount_pushTele TELE_CAP_def c_def)
    have cS: "c = Suc (TELE_CAP - 2)" using True by (simp add: TELE_CAP_def)
    have hu: "(t + c) mod TELE_CAP = (u + (TELE_CAP - 2)) mod TELE_CAP"
      unfolding u_def cS by (simp add: TELE_CAP_def mod_simps add.commute)
    have "ringList TELE_CAP (f((u + (TELE_CAP - 2)) mod TELE_CAP := x)) u (Suc (TELE_CAP - 2)) =
          ringList TELE_CAP (f((u + (TELE_CAP - 2)) mod TELE_CAP := x)) u (TELE_CAP - 2) @ [x]"
      by (simp only: ringList_Suc fun_upd_same)
    also have "\<dots> = ringList TELE_CAP f u (TELE_CAP - 2) @ [x]"
    proof -
      have "TELE_CAP - 2 < TELE_CAP" by (simp add: TELE_CAP_def)
      then show ?thesis by (simp only: ringList_upd_outside [OF order_refl])
    qed
    also have "ringList TELE_CAP f u (TELE_CAP - 2) = tl (ringList TELE_CAP f t c)"
      unfolding cS ringList_Suc_front u_def by simp
    finally have fin: "ringList TELE_CAP (f((u + (TELE_CAP - 2)) mod TELE_CAP := x)) u
        (Suc (TELE_CAP - 2)) = tl (ringList TELE_CAP f t c) @ [x]" .
    have rhs: "(if teleCount p = TELE_CAP - 1 then tl (teleContents p) else teleContents p) =
        tl (ringList TELE_CAP f t c)"
      using True by (simp add: old c_def)
    show ?thesis
      unfolding new t' n hu rhs x_def [symmetric] by (rule fin)
  qed
qed

lemma keep_last:
  assumes "0 < n" "ys = drop (length zs - n) zs"
  shows "(if length ys = n then tl ys else ys) @ [x] = drop (length (zs @ [x]) - n) (zs @ [x])"
proof (cases "length zs < n")
  case True
  with assms show ?thesis by simp
next
  case False
  with assms have "length ys = n" by simp
  moreover from False assms have "Suc (length zs) - n = Suc (length zs - n)" by simp
  ultimately show ?thesis using assms False by (simp add: tl_drop drop_Suc)
qed

lemma teleInv_stat: "teleInv (p\<lparr>stat := s\<rparr>) = teleInv p"
  by (simp add: teleInv_def)

lemma teleContents_stat: "teleContents (p\<lparr>stat := s\<rparr>) = teleContents p"
  by (simp add: teleContents_def teleCount_def)

lemma teleCount_stat: "teleCount (p\<lparr>stat := s\<rparr>) = teleCount p"
  by (simp add: teleCount_def)

lemma pushes_contents:
  "teleInv p \<Longrightarrow> teleContents p = drop (length zs - (TELE_CAP - 1)) zs \<Longrightarrow>
   teleInv (pushes p xs) \<and>
   teleContents (pushes p xs) =
     drop (length (zs @ map (\<lambda>(s, ts). snapshot s ts) xs) - (TELE_CAP - 1))
       (zs @ map (\<lambda>(s, ts). snapshot s ts) xs)"
proof (induction xs arbitrary: p zs)
  case Nil
  then show ?case by simp
next
  case (Cons a xs)
  obtain s ts where a: "a = (s, ts)" by (cases a)
  let ?q = "pushTele (p\<lparr>stat := s\<rparr>) ts"
  have inv: "teleInv (p\<lparr>stat := s\<rparr>)" using Cons.prems by (simp add: teleInv_stat)
  have q: "teleInv ?q" by (rule teleInv_pushTele [OF inv])
  have len: "length (teleContents p) = teleCount p"
    by (simp add: teleContents_def length_ringList)
  have "teleContents ?q =
      (if length (teleContents p) = TELE_CAP - 1 then tl (teleContents p) else teleContents p)
        @ [snapshot s ts]"
    by (simp add: teleContents_pushTele [OF inv] teleContents_stat teleCount_stat len)
  also have "\<dots> = drop (length (zs @ [snapshot s ts]) - (TELE_CAP - 1)) (zs @ [snapshot s ts])"
    by (rule keep_last) (simp_all add: TELE_CAP_def Cons.prems)
  finally have c: "teleContents ?q =
      drop (length (zs @ [snapshot s ts]) - (TELE_CAP - 1)) (zs @ [snapshot s ts])" .
  from Cons.IH [OF q c] show ?case by (simp add: a)
qed

lemma teleCount_alt:
  "teleInv p \<Longrightarrow> teleCount p =
     (if tlTail p \<le> tlHead p then tlHead p - tlTail p else tlHead p + TELE_CAP - tlTail p)"
  unfolding teleCount_def teleInv_def by (subst mod_wrap) auto

lemma teleContents_empty: "teleInv p \<Longrightarrow> (teleContents p = []) = (tlHead p = tlTail p)"
  by (auto simp: teleContents_def ringList_def teleCount_alt) (simp add: teleInv_def)

lemma popTelemetry_empty: "tlHead p = tlTail p \<Longrightarrow> popTelemetry p out = (False, out, p)"
  by (simp add: popTelemetry_def)

lemma popTelemetry_nonempty:
  assumes inv: "teleInv p" and ne: "teleContents p \<noteq> []"
  shows "\<exists>p'. popTelemetry p out = (True, hd (teleContents p), p') \<and> teleInv p' \<and>
           teleContents p' = tl (teleContents p)"
proof -
  let ?p' = "p\<lparr>tlTail := (tlTail p + 1) mod TELE_CAP\<rparr>"
  from inv ne have neq: "tlHead p \<noteq> tlTail p" by (simp add: teleContents_empty)
  from ne obtain m where m: "teleCount p = Suc m"
    by (cases "teleCount p") (simp_all add: teleContents_def ringList_def)
  from inv have t: "tlTail p mod TELE_CAP = tlTail p" by (simp add: teleInv_def)
  have old: "teleContents p = tele p (tlTail p) # ringList TELE_CAP (tele p) ((tlTail p + 1) mod TELE_CAP) m"
    unfolding teleContents_def m ringList_Suc_front t ..
  have cnt: "teleCount ?p' = m"
    using inv m neq
    by (auto simp: teleInv_def teleCount_def TELE_CAP_def mod_wrap split: if_splits)
  have "teleContents ?p' = ringList TELE_CAP (tele p) ((tlTail p + 1) mod TELE_CAP) m"
    unfolding teleContents_def cnt by simp
  moreover have "teleInv ?p'" using inv by (simp add: teleInv_def TELE_CAP_def)
  moreover have "popTelemetry p out = (True, tele p (tlTail p), ?p')"
    using neq by (simp add: popTelemetry_def)
  ultimately show ?thesis using old by simp
qed

lemma drain_all:
  "teleInv p \<Longrightarrow> length (teleContents p) \<le> n \<Longrightarrow>
   fst (drain n p out) = teleContents p \<and> tlHead (snd (drain n p out)) = tlTail (snd (drain n p out))"
proof (induction n arbitrary: p out)
  case 0
  then show ?case using teleContents_empty [of p] by auto
next
  case (Suc n)
  show ?case
  proof (cases "teleContents p = []")
    case True
    with Suc.prems have "tlHead p = tlTail p" by (simp add: teleContents_empty)
    with True show ?thesis by (simp add: popTelemetry_empty)
  next
    case False
    from popTelemetry_nonempty [OF Suc.prems(1) False, of out] obtain p' where
      p': "popTelemetry p out = (True, hd (teleContents p), p')" "teleInv p'"
        "teleContents p' = tl (teleContents p)" by blast
    from Suc.prems p' have "length (teleContents p') \<le> n" by simp
    from Suc.IH [OF p'(2) this, of "hd (teleContents p)"] False p' show ?thesis
      by (simp add: split_beta)
  qed
qed

lemma pushes_drain:
  assumes "tlHead p = tlTail p" "tlTail p < TELE_CAP" "TELE_CAP - 1 \<le> n"
  shows "fst (drain n (pushes p xs) out) =
           drop (length xs - (TELE_CAP - 1)) (map (\<lambda>(s, ts). snapshot s ts) xs)"
proof -
  from assms have inv: "teleInv p" by (simp add: teleInv_def)
  with assms have "teleContents p = []" by (simp add: teleContents_empty)
  then have "teleContents p = drop (length ([] :: Telemetry list) - (TELE_CAP - 1)) []" by simp
  from pushes_contents [OF inv this, of xs]
  have q: "teleInv (pushes p xs)"
    "teleContents (pushes p xs) =
       drop (length xs - (TELE_CAP - 1)) (map (\<lambda>(s, ts). snapshot s ts) xs)" by simp_all
  then have "length (teleContents (pushes p xs)) \<le> n" using assms by simp
  from drain_all [OF q(1) this] q(2) show ?thesis by simp
qed

text \<open>
  Claim C3, as amended. The ring keeps one slot free, so it holds at most
  \<open>TELE_CAP - 1\<close> records. Starting from an empty ring, \<open>TELE_CAP + 1\<close> pushes leave
  exactly \<open>TELE_CAP - 1\<close> records retrievable by \<open>popTelemetry\<close>: the two oldest are
  discarded and the others come out in the order they were pushed. On an empty ring
  \<open>popTelemetry\<close> returns false, leaves \<open>out\<close> as it was and changes nothing.
\<close>

theorem telemetry_ring_fifo:
  assumes "tlHead p = tlTail p" "tlTail p < TELE_CAP" "length xs = TELE_CAP + 1"
  shows "fst (drain TELE_CAP (pushes p xs) out) = map (\<lambda>(s, ts). snapshot s ts) (drop 2 xs) \<and>
         length (fst (drain TELE_CAP (pushes p xs) out)) = TELE_CAP - 1 \<and>
         popTelemetry p out = (False, out, p)"
proof -
  have "fst (drain TELE_CAP (pushes p xs) out) =
          drop (length xs - (TELE_CAP - 1)) (map (\<lambda>(s, ts). snapshot s ts) xs)"
    using assms by (intro pushes_drain) simp_all
  with assms show ?thesis
    by (simp add: TELE_CAP_def drop_map popTelemetry_empty)
qed

lemma length_stamped: "length (map stamped [0..<257]) = TELE_CAP + 1"
  by (simp add: TELE_CAP_def)

theorem telemetry_ring_fifo_witness:
  "fst (drain TELE_CAP (pushes newPipeline (map stamped [0..<257])) (snapshot zeroStatus 0)) =
     map (\<lambda>(s, ts). snapshot s ts) (drop 2 (map stamped [0..<257])) \<and>
   length (fst (drain TELE_CAP (pushes newPipeline (map stamped [0..<257])) (snapshot zeroStatus 0)))
     = TELE_CAP - 1 \<and>
   popTelemetry newPipeline (snapshot zeroStatus 0) = (False, snapshot zeroStatus 0, newPipeline)"
  by (rule telemetry_ring_fifo [OF _ _ length_stamped])
    (simp_all add: newPipeline_def TELE_CAP_def)

text \<open>
  The claim as stated, \<open>TELE_CAP\<close> records retrievable and only the oldest lost, fails on
  the constructed pipeline: after 257 pushes stamped 0 to 256, 255 records come out and
  the first of them is the one stamped 2.
\<close>

theorem telemetry_ring_capacity_counterexample:
  "length (fst (drain 257 (pushes newPipeline (map stamped [0..<257])) (snapshot zeroStatus 0)))
     = 255 \<and>
   hd (fst (drain 257 (pushes newPipeline (map stamped [0..<257])) (snapshot zeroStatus 0)))
     = snapshot zeroStatus 2 \<and> TELE_CAP = 256"
proof -
  have "fst (drain 257 (pushes newPipeline (map stamped [0..<257])) (snapshot zeroStatus 0)) =
      drop (length (map stamped [0..<257]) - (TELE_CAP - 1))
        (map (\<lambda>(s, ts). snapshot s ts) (map stamped [0..<257]))"
    by (rule pushes_drain) (simp_all add: newPipeline_def TELE_CAP_def)
  then show ?thesis
    by (simp add: TELE_CAP_def drop_map hd_map hd_drop_conv_nth stamped_def del: upt_Suc)
qed

section \<open>The burst ring\<close>

lemma burstCap_short: "burstCap shortBurstConfig = 64"
  by (simp add: burstCap_def shortBurstConfig_def defaultConfig_def BURST_CAP_def
      f32_640 f32_100 f32_tenth f32_64ish)

lemma export_fold:
  "fold (\<lambda>i (b1, b2). (b1(i := f1 i), b2(i := f2 i))) [0..<n] (b1, b2) =
     (\<lambda>i. if i < n then f1 i else b1 i, \<lambda>i. if i < n then f2 i else b2 i)"
  by (induction n) (auto simp: fun_eq_iff)

text \<open>What \<open>exportBurst\<close> returns and writes, in closed form.\<close>

lemma exportBurst_eq:
  "exportBurst p b1 b2 m =
     (min (burstFill p) m,
      \<lambda>i. if i < min (burstFill p) m then burstCh1 p ((burstTail p + i) mod BURST_CAP) else b1 i,
      \<lambda>i. if i < min (burstFill p) m then burstCh2 p ((burstTail p + i) mod BURST_CAP) else b2 i)"
  unfolding exportBurst_def Let_def by (simp add: export_fold)

lemma pushBurst_fields:
  "cfg (pushBurst p c0 c1) = cfg p"
  "burstCh1 (pushBurst p c0 c1) = (burstCh1 p)(burstHead p := c0)"
  "burstCh2 (pushBurst p c0 c1) = (burstCh2 p)(burstHead p := c1)"
  "burstHead (pushBurst p c0 c1) = (burstHead p + 1) mod burstCap (cfg p)"
  "burstFill (pushBurst p c0 c1) =
     (if burstFill p < burstCap (cfg p) then burstFill p + 1 else burstFill p)"
  "burstTail (pushBurst p c0 c1) =
     (if burstFill p < burstCap (cfg p) then burstTail p
      else (burstTail p + 1) mod burstCap (cfg p))"
  by (simp_all add: pushBurst_def Let_def)

lemma pushBursts_snoc:
  "pushBursts p (cs @ [c]) = pushBurst (pushBursts p cs) (fst c) (snd c)"
proof (induction cs arbitrary: p)
  case Nil
  show ?case by (cases c) simp
next
  case (Cons a cs)
  then show ?case by (cases a) simp
qed

lemma pushBursts_filling:
  "burstFill p = n \<Longrightarrow> burstHead p = n mod burstCap (cfg p) \<Longrightarrow> n + length cs \<le> burstCap (cfg p) \<Longrightarrow>
   cfg (pushBursts p cs) = cfg p \<and>
   burstFill (pushBursts p cs) = n + length cs \<and>
   burstHead (pushBursts p cs) = (n + length cs) mod burstCap (cfg p) \<and>
   burstTail (pushBursts p cs) = burstTail p \<and>
   (\<forall>i. burstCh1 (pushBursts p cs) i =
        (if n \<le> i \<and> i < n + length cs then fst (cs ! (i - n)) else burstCh1 p i)) \<and>
   (\<forall>i. burstCh2 (pushBursts p cs) i =
        (if n \<le> i \<and> i < n + length cs then snd (cs ! (i - n)) else burstCh2 p i))"
proof (induction cs rule: rev_induct)
  case Nil
  then show ?case by auto
next
  case (snoc c cs)
  then have IH: "cfg (pushBursts p cs) = cfg p"
    "burstFill (pushBursts p cs) = n + length cs"
    "burstHead (pushBursts p cs) = (n + length cs) mod burstCap (cfg p)"
    "burstTail (pushBursts p cs) = burstTail p"
    "\<And>i. burstCh1 (pushBursts p cs) i =
        (if n \<le> i \<and> i < n + length cs then fst (cs ! (i - n)) else burstCh1 p i)"
    "\<And>i. burstCh2 (pushBursts p cs) i =
        (if n \<le> i \<and> i < n + length cs then snd (cs ! (i - n)) else burstCh2 p i)"
    by simp_all
  from snoc.prems have lt: "n + length cs < burstCap (cfg p)" by simp
  then have hd: "(n + length cs) mod burstCap (cfg p) = n + length cs" by simp
  show ?case
    unfolding pushBursts_snoc pushBurst_fields IH hd
    using lt by (auto simp: nth_append)
qed

lemma wrappedBurst_fields:
  "burstFill wrappedBurst = 64"
  "burstHead wrappedBurst = 1"
  "burstTail wrappedBurst = 1"
  "burstCh1 wrappedBurst i =
     (if i = 0 then 65 else if i < 64 then word_of_nat (i + 1) else 0)"
  "burstCh2 wrappedBurst i =
     (if i = 0 then 1065 else if i < 64 then word_of_nat (1001 + i) else 0)"
proof -
  define p0 where "p0 = newPipeline\<lparr>cfg := shortBurstConfig\<rparr>"
  define cs where "cs = map rampSample [1..<65]"
  define q where "q = pushBursts p0 cs"
  have "[1..<Suc 65] = [1..<65] @ [65]" by (rule upt_Suc_append) simp
  moreover have "(66::nat) = Suc 65" by simp
  ultimately have "[1..<66] = [1..<65] @ [65]" by (simp only:)
  then have split: "map rampSample [1..<66] = cs @ [rampSample 65]"
    by (simp only: map_append list.map cs_def)
  have w: "wrappedBurst = pushBurst q (fst (rampSample 65)) (snd (rampSample 65))"
    unfolding wrappedBurst_def split pushBursts_snoc q_def p0_def ..
  have len: "length cs = 64" by (simp add: cs_def)
  have nth: "\<And>i. i < 64 \<Longrightarrow> cs ! i = rampSample (i + 1)"
    by (simp add: cs_def del: upt_Suc)
  have p0: "burstFill p0 = 0" "burstHead p0 = 0" "burstTail p0 = 0" "cfg p0 = shortBurstConfig"
    "\<And>i. burstCh1 p0 i = 0" "\<And>i. burstCh2 p0 i = 0"
    by (simp_all add: p0_def newPipeline_def)
  have "cfg (pushBursts p0 cs) = cfg p0 \<and>
   burstFill (pushBursts p0 cs) = 0 + length cs \<and>
   burstHead (pushBursts p0 cs) = (0 + length cs) mod burstCap (cfg p0) \<and>
   burstTail (pushBursts p0 cs) = burstTail p0 \<and>
   (\<forall>i. burstCh1 (pushBursts p0 cs) i =
        (if 0 \<le> i \<and> i < 0 + length cs then fst (cs ! (i - 0)) else burstCh1 p0 i)) \<and>
   (\<forall>i. burstCh2 (pushBursts p0 cs) i =
        (if 0 \<le> i \<and> i < 0 + length cs then snd (cs ! (i - 0)) else burstCh2 p0 i))"
    by (rule pushBursts_filling) (simp_all add: p0 len burstCap_short)
  then have qf: "cfg q = shortBurstConfig" "burstFill q = 64" "burstHead q = 0"
    "burstTail q = 0"
    "\<And>i. burstCh1 q i = (if i < 64 then word_of_nat (i + 1) else 0)"
    "\<And>i. burstCh2 q i = (if i < 64 then word_of_nat (1001 + i) else 0)"
    by (simp_all add: q_def [symmetric] p0 len nth burstCap_short rampSample_def)
  show "burstFill wrappedBurst = 64" "burstHead wrappedBurst = 1" "burstTail wrappedBurst = 1"
    by (simp_all add: w pushBurst_fields qf burstCap_short)
  show "burstCh1 wrappedBurst i =
     (if i = 0 then 65 else if i < 64 then word_of_nat (i + 1) else 0)"
    by (simp add: w pushBurst_fields qf rampSample_def)
  show "burstCh2 wrappedBurst i =
     (if i = 0 then 1065 else if i < 64 then word_of_nat (1001 + i) else 0)"
    by (simp add: w pushBurst_fields qf rampSample_def)
qed

lemma upt_0_64: "[0..<64] = 0 # 1 # [2..<64]"
  by (simp add: upt_rec [of 0] upt_rec [of "Suc 0"] numeral_2_eq_2)

text \<open>
  Claim C2 says that \<open>exportBurst\<close> returns the smaller of the requested count and the
  number of samples held, and copies the held samples, oldest first. \<open>pushBurst\<close> wraps
  its indices at the configured capacity \<open>cap\<close>, \<open>exportBurst\<close> at \<open>BURST_CAP\<close>. Once the
  ring has wrapped with \<open>cap < BURST_CAP\<close> the two disagree: \<open>wrappedBurst\<close> holds the
  64 samples 2 to 65, the newest in slot 0, and an export of 64 samples returns 64 and
  copies the samples 2 to 64 followed by the content of slot 64, which was never written.
\<close>

theorem exportBurst_after_wrap:
  "fst (exportBurst wrappedBurst callerBuf callerBuf 64) = 64 \<and>
   burstFill wrappedBurst = 64 \<and> burstTail wrappedBurst = 1 \<and>
   burstCh1 wrappedBurst 0 = 65 \<and> burstCh2 wrappedBurst 0 = 1065 \<and>
   map (fst (snd (exportBurst wrappedBurst callerBuf callerBuf 64))) [0..<64] =
     map word_of_nat [2..<65] @ [0] \<and>
   map (snd (snd (exportBurst wrappedBurst callerBuf callerBuf 64))) [0..<64] =
     map word_of_nat [1002..<1065] @ [0]"
proof -
  have "map (fst (snd (exportBurst wrappedBurst callerBuf callerBuf 64))) [0..<64] =
     map word_of_nat [2..<65] @ [0]"
    by (simp add: exportBurst_eq wrappedBurst_fields BURST_CAP_def upt_0_64)
  moreover have "map (snd (snd (exportBurst wrappedBurst callerBuf callerBuf 64))) [0..<64] =
     map word_of_nat [1002..<1065] @ [0]"
    by (simp add: exportBurst_eq wrappedBurst_fields BURST_CAP_def upt_0_64)
  ultimately show ?thesis
    by (simp add: exportBurst_eq wrappedBurst_fields)
qed

section \<open>What each function leaves unchanged\<close>

text \<open>
  Frame lemmas: the fields a function does not write, and the value of those it does,
  one function at a time. The theorems about \<open>tick\<close> are assembled from them.
\<close>

lemma handleBurst_frame:
  "delivered (handleBurst p now m0 m1) = delivered p"
  "cb (handleBurst p now m0 m1) = cb p"
  "cfg (handleBurst p now m0 m1) = cfg p"
  "stat (handleBurst p now m0 m1) = stat p"
  "ch1 (handleBurst p now m0 m1) = ch1 p"
  "ch2 (handleBurst p now m0 m1) = ch2 p"
  "hypoStartMs (handleBurst p now m0 m1) = hypoStartMs p"
  "hypoActive (handleBurst p now m0 m1) = hypoActive p"
  "apneaActive_static (handleBurst p now m0 m1) = apneaActive_static p"
  "rrBuf (handleBurst p now m0 m1) = rrBuf p"
  "rrIdx (handleBurst p now m0 m1) = rrIdx p"
  "rrFill (handleBurst p now m0 m1) = rrFill p"
  "prevAbove (handleBurst p now m0 m1) = prevAbove p"
  "lastEventMs (handleBurst p now m0 m1) = lastEventMs p"
  "prevEnv (handleBurst p now m0 m1) = prevEnv p"
  by (simp_all add: handleBurst_def pushBurst_def Let_def)

lemma pushTele_frame:
  "delivered (pushTele p now) = delivered p"
  "cb (pushTele p now) = cb p"
  "cfg (pushTele p now) = cfg p"
  "stat (pushTele p now) = stat p"
  "ch1 (pushTele p now) = ch1 p"
  "ch2 (pushTele p now) = ch2 p"
  "hypoStartMs (pushTele p now) = hypoStartMs p"
  "hypoActive (pushTele p now) = hypoActive p"
  "apneaActive_static (pushTele p now) = apneaActive_static p"
  "rrBuf (pushTele p now) = rrBuf p"
  "rrIdx (pushTele p now) = rrIdx p"
  "rrFill (pushTele p now) = rrFill p"
  "prevAbove (pushTele p now) = prevAbove p"
  "lastEventMs (pushTele p now) = lastEventMs p"
  "prevEnv (pushTele p now) = prevEnv p"
  by (simp_all add: pushTele_def Let_def)

lemma emit_frame:
  "delivered (emit p ev) = delivered p @ (if cb p then [ev] else [])"
  "cb (emit p ev) = cb p"
  "cfg (emit p ev) = cfg p"
  "stat (emit p ev) = stat p"
  "ch1 (emit p ev) = ch1 p"
  "ch2 (emit p ev) = ch2 p"
  "hypoStartMs (emit p ev) = hypoStartMs p"
  "hypoActive (emit p ev) = hypoActive p"
  "apneaActive_static (emit p ev) = apneaActive_static p"
  "rrBuf (emit p ev) = rrBuf p"
  "rrIdx (emit p ev) = rrIdx p"
  "rrFill (emit p ev) = rrFill p"
  "prevAbove (emit p ev) = prevAbove p"
  "lastEventMs (emit p ev) = lastEventMs p"
  "prevEnv (emit p ev) = prevEnv p"
  by (simp_all add: emit_def)

lemma updateApneaFSM_frame:
  "cb (updateApneaFSM p now b) = cb p"
  "cfg (updateApneaFSM p now b) = cfg p"
  "ch1 (updateApneaFSM p now b) = ch1 p"
  "ch2 (updateApneaFSM p now b) = ch2 p"
  "hypoStartMs (updateApneaFSM p now b) = hypoStartMs p"
  "hypoActive (updateApneaFSM p now b) = hypoActive p"
  "rrBuf (updateApneaFSM p now b) = rrBuf p"
  "rrIdx (updateApneaFSM p now b) = rrIdx p"
  "rrFill (updateApneaFSM p now b) = rrFill p"
  "prevAbove (updateApneaFSM p now b) = prevAbove p"
  "lastEventMs (updateApneaFSM p now b) = lastEventMs p"
  "prevEnv (updateApneaFSM p now b) = prevEnv p"
  "bpm (stat (updateApneaFSM p now b)) = bpm (stat p)"
  "artifact (stat (updateApneaFSM p now b)) = artifact (stat p)"
  by (simp_all add: updateApneaFSM_def emit_frame)

lemma updateApneaFSM_state: "apneaActive_static (updateApneaFSM p now b) = b"
  by (auto simp: updateApneaFSM_def emit_frame)

lemma updateApneaFSM_delivered:
  "delivered (updateApneaFSM p now b) = delivered p @
     (if cb p \<and> b \<and> \<not> apneaActive_static p then [Event ApneaStart now 0]
      else if cb p \<and> \<not> b \<and> apneaActive_static p then [Event ApneaEnd now 0]
      else [])"
  by (auto simp: updateApneaFSM_def emit_frame)

lemma updateHypopneaFSM_frame:
  "cb (updateHypopneaFSM p now b) = cb p"
  "cfg (updateHypopneaFSM p now b) = cfg p"
  "ch1 (updateHypopneaFSM p now b) = ch1 p"
  "ch2 (updateHypopneaFSM p now b) = ch2 p"
  "apneaActive_static (updateHypopneaFSM p now b) = apneaActive_static p"
  "rrBuf (updateHypopneaFSM p now b) = rrBuf p"
  "rrIdx (updateHypopneaFSM p now b) = rrIdx p"
  "rrFill (updateHypopneaFSM p now b) = rrFill p"
  "prevAbove (updateHypopneaFSM p now b) = prevAbove p"
  "lastEventMs (updateHypopneaFSM p now b) = lastEventMs p"
  "prevEnv (updateHypopneaFSM p now b) = prevEnv p"
  "bpm (stat (updateHypopneaFSM p now b)) = bpm (stat p)"
  "artifact (stat (updateHypopneaFSM p now b)) = artifact (stat p)"
  by (simp_all add: updateHypopneaFSM_def emit_frame Let_def)

lemma updateHypopneaFSM_delivered:
  "delivered (updateHypopneaFSM p now b) = delivered p @
     (if b then
        (if cb p \<and> \<not> hypoActive p \<and>
            toU32 (f32 (hypopneaMinSec (cfg p) * 1000))
              \<le> now - (if hypoStartMs p = 0 then now else hypoStartMs p)
         then [Event HypopneaStart now 0] else [])
      else if cb p \<and> hypoActive p then [Event HypopneaEnd now 0] else [])"
  by (auto simp: updateHypopneaFSM_def emit_frame Let_def)

lemma updateHypopneaFSM_off:
  "hypoStartMs (updateHypopneaFSM p now False) = 0"
  "hypoActive (updateHypopneaFSM p now False) = False"
  by (simp_all add: updateHypopneaFSM_def emit_frame Let_def)


lemma detectArtifact_frame:
  "delivered (snd (detectArtifact p C mv)) = delivered p"
  "cb (snd (detectArtifact p C mv)) = cb p"
  "cfg (snd (detectArtifact p C mv)) = cfg p"
  "stat (snd (detectArtifact p C mv)) = stat p"
  "ch1 (snd (detectArtifact p C mv)) = ch1 p"
  "ch2 (snd (detectArtifact p C mv)) = ch2 p"
  "hypoStartMs (snd (detectArtifact p C mv)) = hypoStartMs p"
  "hypoActive (snd (detectArtifact p C mv)) = hypoActive p"
  "apneaActive_static (snd (detectArtifact p C mv)) = apneaActive_static p"
  "rrBuf (snd (detectArtifact p C mv)) = rrBuf p"
  "rrIdx (snd (detectArtifact p C mv)) = rrIdx p"
  "rrFill (snd (detectArtifact p C mv)) = rrFill p"
  "prevAbove (snd (detectArtifact p C mv)) = prevAbove p"
  "lastEventMs (snd (detectArtifact p C mv)) = lastEventMs p"
  by (simp_all add: detectArtifact_def Let_def)

lemma peakDetectAndRR_frame:
  "delivered (fst (peakDetectAndRR p C now)) = delivered p"
  "cb (fst (peakDetectAndRR p C now)) = cb p"
  "cfg (fst (peakDetectAndRR p C now)) = cfg p"
  "ch1 (fst (peakDetectAndRR p C now)) = ch1 p"
  "ch2 (fst (peakDetectAndRR p C now)) = ch2 p"
  "hypoStartMs (fst (peakDetectAndRR p C now)) = hypoStartMs p"
  "hypoActive (fst (peakDetectAndRR p C now)) = hypoActive p"
  "apneaActive_static (fst (peakDetectAndRR p C now)) = apneaActive_static p"
  "prevEnv (fst (peakDetectAndRR p C now)) = prevEnv p"
  "artifact (stat (fst (peakDetectAndRR p C now))) = artifact (stat p)"
  by (simp_all add: peakDetectAndRR_def Let_def)

lemma peakDetectAndRR_channel:
  "env (snd (peakDetectAndRR p C now)) = env C"
  "dcBaseline (snd (peakDetectAndRR p C now)) = dcBaseline C"
  "envBaseline (snd (peakDetectAndRR p C now)) = envBaseline C"
  "lastCrossMs (snd (peakDetectAndRR p C now)) = lastCrossMs C"
  "maBuf (snd (peakDetectAndRR p C now)) = maBuf C"
  "maIdx (snd (peakDetectAndRR p C now)) = maIdx C"
  "maFill (snd (peakDetectAndRR p C now)) = maFill C"
  by (simp_all add: peakDetectAndRR_def Let_def)

lemma setPrimaryCh_frame:
  "delivered (setPrimaryCh p C) = delivered p"
  "cb (setPrimaryCh p C) = cb p"
  "cfg (setPrimaryCh p C) = cfg p"
  "stat (setPrimaryCh p C) = stat p"
  "hypoStartMs (setPrimaryCh p C) = hypoStartMs p"
  "hypoActive (setPrimaryCh p C) = hypoActive p"
  "apneaActive_static (setPrimaryCh p C) = apneaActive_static p"
  "rrBuf (setPrimaryCh p C) = rrBuf p"
  "rrIdx (setPrimaryCh p C) = rrIdx p"
  "rrFill (setPrimaryCh p C) = rrFill p"
  "prevAbove (setPrimaryCh p C) = prevAbove p"
  "lastEventMs (setPrimaryCh p C) = lastEventMs p"
  "prevEnv (setPrimaryCh p C) = prevEnv p"
  "primaryCh (setPrimaryCh p C) = C"
  by (simp_all add: setPrimaryCh_def primaryCh_def)

lemma publishStage_frame:
  "delivered (publishStage p now P e b t) = delivered p"
  "cb (publishStage p now P e b t) = cb p"
  "cfg (publishStage p now P e b t) = cfg p"
  "ch1 (publishStage p now P e b t) = ch1 p"
  "ch2 (publishStage p now P e b t) = ch2 p"
  "hypoStartMs (publishStage p now P e b t) = hypoStartMs p"
  "hypoActive (publishStage p now P e b t) = hypoActive p"
  "apneaActive_static (publishStage p now P e b t) = apneaActive_static p"
  "rrBuf (publishStage p now P e b t) = rrBuf p"
  "rrIdx (publishStage p now P e b t) = rrIdx p"
  "rrFill (publishStage p now P e b t) = rrFill p"
  "prevAbove (publishStage p now P e b t) = prevAbove p"
  "lastEventMs (publishStage p now P e b t) = lastEventMs p"
  "prevEnv (publishStage p now P e b t) = prevEnv p"
  "bpm (stat (publishStage p now P e b t)) = bpm (stat p)"
  "artifact (stat (publishStage p now P e b t)) = artifact (stat p)"
  "signalOK (stat (publishStage p now P e b t)) = (now - lastCrossMs P < 2000)"
  by (simp_all add: publishStage_def)

lemma fsmStage_frame:
  "cb (fsmStage p now a b P) = cb p"
  "cfg (fsmStage p now a b P) = cfg p"
  "ch1 (fsmStage p now a b P) = ch1 p"
  "ch2 (fsmStage p now a b P) = ch2 p"
  "rrBuf (fsmStage p now a b P) = rrBuf p"
  "rrIdx (fsmStage p now a b P) = rrIdx p"
  "rrFill (fsmStage p now a b P) = rrFill p"
  "prevAbove (fsmStage p now a b P) = prevAbove p"
  "lastEventMs (fsmStage p now a b P) = lastEventMs p"
  "prevEnv (fsmStage p now a b P) = prevEnv p"
  "bpm (stat (fsmStage p now a b P)) = bpm (stat p)"
  "artifact (stat (fsmStage p now a b P)) = artifact (stat p)"
  by (simp_all add: fsmStage_def Let_def updateApneaFSM_frame updateHypopneaFSM_frame)

lemma sampleStage_frame:
  "delivered (fst (sampleStage p inp)) = delivered p"
  "cb (fst (sampleStage p inp)) = cb p"
  "cfg (fst (sampleStage p inp)) = cfg p"
  "stat (fst (sampleStage p inp)) = stat p"
  "hypoStartMs (fst (sampleStage p inp)) = hypoStartMs p"
  "hypoActive (fst (sampleStage p inp)) = hypoActive p"
  "apneaActive_static (fst (sampleStage p inp)) = apneaActive_static p"
  "rrBuf (fst (sampleStage p inp)) = rrBuf p"
  "rrIdx (fst (sampleStage p inp)) = rrIdx p"
  "rrFill (fst (sampleStage p inp)) = rrFill p"
  "prevAbove (fst (sampleStage p inp)) = prevAbove p"
  "lastEventMs (fst (sampleStage p inp)) = lastEventMs p"
  "prevEnv (fst (sampleStage p inp)) = prevEnv p"
  by (simp_all add: sampleStage_def Let_def)

section \<open>The blocks of tick\<close>

lemma detectStage_frame:
  "delivered (fst (snd (detectStage p now mv))) = delivered p"
  "cb (fst (snd (detectStage p now mv))) = cb p"
  "cfg (fst (snd (detectStage p now mv))) = cfg p"
  "ch1 (fst (snd (detectStage p now mv))) = ch1 p"
  "ch2 (fst (snd (detectStage p now mv))) = ch2 p"
  "hypoStartMs (fst (snd (detectStage p now mv))) = hypoStartMs p"
  "hypoActive (fst (snd (detectStage p now mv))) = hypoActive p"
  "apneaActive_static (fst (snd (detectStage p now mv))) = apneaActive_static p"
  "artifact (stat (fst (snd (detectStage p now mv)))) = fst (detectStage p now mv)"
  by (simp_all add: detectStage_def Let_def split_beta detectArtifact_frame
      peakDetectAndRR_frame)

lemma detectStage_flag:
  "fst (detectStage p now mv) = fst (detectArtifact p (primaryCh p) mv)"
  by (simp add: detectStage_def Let_def split_beta)

lemma detectStage_channel:
  "env (snd (snd (detectStage p now mv))) = env (primaryCh p)"
  "dcBaseline (snd (snd (detectStage p now mv))) = dcBaseline (primaryCh p)"
  "envBaseline (snd (snd (detectStage p now mv))) = envBaseline (primaryCh p)"
  "lastCrossMs (snd (snd (detectStage p now mv))) =
     (if env (primaryCh p) \<ge> thrOf p (primaryCh p) \<and> \<not> fst (detectStage p now mv) then now
      else lastCrossMs (primaryCh p))"
  by (simp_all add: detectStage_def Let_def split_beta peakDetectAndRR_channel)

lemma detectStage_artifact:
  assumes "fst (detectStage p now mv)"
  shows "snd (snd (detectStage p now mv)) = primaryCh p"
    "rrBuf (fst (snd (detectStage p now mv))) = rrBuf p"
    "rrIdx (fst (snd (detectStage p now mv))) = rrIdx p"
    "rrFill (fst (snd (detectStage p now mv))) = rrFill p"
    "bpm (stat (fst (snd (detectStage p now mv)))) = bpm (stat p)"
    "prevAbove (fst (snd (detectStage p now mv))) = prevAbove p"
    "lastEventMs (fst (snd (detectStage p now mv))) = lastEventMs p"
  using assms
  by (simp_all add: detectStage_def Let_def split_beta detectArtifact_frame)

lemma fsmStage_delivered:
  "delivered (fsmStage p now a b P) =
     delivered p @
     (if hypoNowOf p a b P then
        (if cb p \<and> \<not> hypoActive p \<and>
            toU32 (f32 (hypopneaMinSec (cfg p) * 1000))
              \<le> now - (if hypoStartMs p = 0 then now else hypoStartMs p)
         then [Event HypopneaStart now 0] else [])
      else if cb p \<and> hypoActive p then [Event HypopneaEnd now 0] else []) @
     (if cb p \<and> apneaNowOf p now P \<and> \<not> apneaActive_static p then [Event ApneaStart now 0]
      else if cb p \<and> \<not> apneaNowOf p now P \<and> apneaActive_static p then [Event ApneaEnd now 0]
      else [])"
  by (simp add: fsmStage_def Let_def updateApneaFSM_delivered updateHypopneaFSM_delivered
      updateHypopneaFSM_frame apneaNowOf_def)

lemma fsmStage_apnea: "apneaActive_static (fsmStage p now a b P) = apneaNowOf p now P"
  by (simp add: fsmStage_def Let_def updateApneaFSM_state apneaNowOf_def updateHypopneaFSM_frame)

lemma fsmStage_artifact_hypo:
  "hypoStartMs (fsmStage p now True b P) = 0"
  "hypoActive (fsmStage p now True b P) = False"
  by (simp_all add: fsmStage_def Let_def hypoNowOf_def updateApneaFSM_frame updateHypopneaFSM_off)

text \<open>The tick, when it is due, as the chain of its blocks.\<close>

lemma tick_due:
  assumes "due p inp"
  obtains p1 mv0 mv1 mvP a p3 P2 where
    "sampleStage p inp = (p1, mv0, mv1)"
    "mvP = (if primaryChannel (cfg p) = CH2_A1 then mv1 else mv0)"
    "detectStage p1 (nowMs inp) mvP = (a, p3, P2)"
    "tick p inp =
       handleBurst
         (pushTele
           (setPrimaryCh
             (publishStage (fsmStage p3 (nowMs inp) a (baseOf (primaryCh p1)) P2) (nowMs inp) P2
               (env (primaryCh p1)) (baseOf (primaryCh p1)) (thrOf p1 (primaryCh p1)))
             P2)
           (nowMs inp))
         (nowMs inp) mv0 mv1"
proof -
  obtain p1 mv0 mv1 where ss: "sampleStage p inp = (p1, mv0, mv1)"
    by (cases "sampleStage p inp")
  have c: "cfg p1 = cfg p" using sampleStage_frame(3) [of p inp] ss by simp
  define mvP where "mvP = (if primaryChannel (cfg p) = CH2_A1 then mv1 else mv0)"
  obtain a p3 P2 where ds: "detectStage p1 (nowMs inp) mvP = (a, p3, P2)"
    by (cases "detectStage p1 (nowMs inp) mvP")
  have "tick p inp =
       handleBurst
         (pushTele
           (setPrimaryCh
             (publishStage (fsmStage p3 (nowMs inp) a (baseOf (primaryCh p1)) P2) (nowMs inp) P2
               (env (primaryCh p1)) (baseOf (primaryCh p1)) (thrOf p1 (primaryCh p1)))
             P2)
           (nowMs inp))
         (nowMs inp) mv0 mv1"
    using assms by (simp add: tick_def ss tickPrimary_def Let_def c mvP_def [symmetric] ds)
  with ss mvP_def ds show ?thesis by (rule that)
qed

section \<open>The configuration during a tick\<close>

lemma handleBurst_setup:
  "ads (handleBurst p now m0 m1) = ads p"
  "lsb_mV (handleBurst p now m0 m1) = lsb_mV p"
  "intervalUs (handleBurst p now m0 m1) = intervalUs p"
  "alphaDC (handleBurst p now m0 m1) = alphaDC p"
  "alphaEnv (handleBurst p now m0 m1) = alphaEnv p"
  "alphaThr (handleBurst p now m0 m1) = alphaThr p"
  by (simp_all add: handleBurst_def pushBurst_def Let_def)

lemma pushTele_setup:
  "ads (pushTele p now) = ads p"
  "lsb_mV (pushTele p now) = lsb_mV p"
  "intervalUs (pushTele p now) = intervalUs p"
  "alphaDC (pushTele p now) = alphaDC p"
  "alphaEnv (pushTele p now) = alphaEnv p"
  "alphaThr (pushTele p now) = alphaThr p"
  by (simp_all add: pushTele_def Let_def)

lemma emit_setup:
  "ads (emit p ev) = ads p"
  "lsb_mV (emit p ev) = lsb_mV p"
  "intervalUs (emit p ev) = intervalUs p"
  "alphaDC (emit p ev) = alphaDC p"
  "alphaEnv (emit p ev) = alphaEnv p"
  "alphaThr (emit p ev) = alphaThr p"
  by (simp_all add: emit_def)

lemma updateApneaFSM_setup:
  "ads (updateApneaFSM p now b) = ads p"
  "lsb_mV (updateApneaFSM p now b) = lsb_mV p"
  "intervalUs (updateApneaFSM p now b) = intervalUs p"
  "alphaDC (updateApneaFSM p now b) = alphaDC p"
  "alphaEnv (updateApneaFSM p now b) = alphaEnv p"
  "alphaThr (updateApneaFSM p now b) = alphaThr p"
  by (simp_all add: updateApneaFSM_def emit_def)

lemma updateHypopneaFSM_setup:
  "ads (updateHypopneaFSM p now b) = ads p"
  "lsb_mV (updateHypopneaFSM p now b) = lsb_mV p"
  "intervalUs (updateHypopneaFSM p now b) = intervalUs p"
  "alphaDC (updateHypopneaFSM p now b) = alphaDC p"
  "alphaEnv (updateHypopneaFSM p now b) = alphaEnv p"
  "alphaThr (updateHypopneaFSM p now b) = alphaThr p"
  by (simp_all add: updateHypopneaFSM_def emit_def Let_def)

lemma detectArtifact_setup:
  "ads (snd (detectArtifact p C mv)) = ads p"
  "lsb_mV (snd (detectArtifact p C mv)) = lsb_mV p"
  "intervalUs (snd (detectArtifact p C mv)) = intervalUs p"
  "alphaDC (snd (detectArtifact p C mv)) = alphaDC p"
  "alphaEnv (snd (detectArtifact p C mv)) = alphaEnv p"
  "alphaThr (snd (detectArtifact p C mv)) = alphaThr p"
  by (simp_all add: detectArtifact_def Let_def)

lemma peakDetectAndRR_setup:
  "ads (fst (peakDetectAndRR p C now)) = ads p"
  "lsb_mV (fst (peakDetectAndRR p C now)) = lsb_mV p"
  "intervalUs (fst (peakDetectAndRR p C now)) = intervalUs p"
  "alphaDC (fst (peakDetectAndRR p C now)) = alphaDC p"
  "alphaEnv (fst (peakDetectAndRR p C now)) = alphaEnv p"
  "alphaThr (fst (peakDetectAndRR p C now)) = alphaThr p"
  by (simp_all add: peakDetectAndRR_def Let_def)

lemma setPrimaryCh_setup:
  "ads (setPrimaryCh p C) = ads p"
  "lsb_mV (setPrimaryCh p C) = lsb_mV p"
  "intervalUs (setPrimaryCh p C) = intervalUs p"
  "alphaDC (setPrimaryCh p C) = alphaDC p"
  "alphaEnv (setPrimaryCh p C) = alphaEnv p"
  "alphaThr (setPrimaryCh p C) = alphaThr p"
  by (simp_all add: setPrimaryCh_def)

lemma publishStage_setup:
  "ads (publishStage p now P e bs t) = ads p"
  "lsb_mV (publishStage p now P e bs t) = lsb_mV p"
  "intervalUs (publishStage p now P e bs t) = intervalUs p"
  "alphaDC (publishStage p now P e bs t) = alphaDC p"
  "alphaEnv (publishStage p now P e bs t) = alphaEnv p"
  "alphaThr (publishStage p now P e bs t) = alphaThr p"
  by (simp_all add: publishStage_def)

lemma nextSampleUs_frame:
  "nextSampleUs (handleBurst p now m0 m1) = nextSampleUs p"
  "nextSampleUs (pushTele p now) = nextSampleUs p"
  "nextSampleUs (emit p ev) = nextSampleUs p"
  "nextSampleUs (updateApneaFSM p now b) = nextSampleUs p"
  "nextSampleUs (updateHypopneaFSM p now b) = nextSampleUs p"
  "nextSampleUs (snd (detectArtifact p C mv)) = nextSampleUs p"
  "nextSampleUs (fst (peakDetectAndRR p C now)) = nextSampleUs p"
  "nextSampleUs (setPrimaryCh p C) = nextSampleUs p"
  "nextSampleUs (publishStage p now P e bs t) = nextSampleUs p"
  by (simp_all add: handleBurst_def pushBurst_def pushTele_def emit_def updateApneaFSM_def
      updateHypopneaFSM_def detectArtifact_def peakDetectAndRR_def setPrimaryCh_def
      publishStage_def Let_def)

lemma fsmStage_setup:
  "ads (fsmStage p now a b P) = ads p"
  "lsb_mV (fsmStage p now a b P) = lsb_mV p"
  "intervalUs (fsmStage p now a b P) = intervalUs p"
  "alphaDC (fsmStage p now a b P) = alphaDC p"
  "alphaEnv (fsmStage p now a b P) = alphaEnv p"
  "alphaThr (fsmStage p now a b P) = alphaThr p"
  "nextSampleUs (fsmStage p now a b P) = nextSampleUs p"
  by (simp_all add: fsmStage_def Let_def updateApneaFSM_setup updateHypopneaFSM_setup
      nextSampleUs_frame)

lemma detectStage_setup:
  "ads (fst (snd (detectStage p now mv))) = ads p"
  "lsb_mV (fst (snd (detectStage p now mv))) = lsb_mV p"
  "intervalUs (fst (snd (detectStage p now mv))) = intervalUs p"
  "alphaDC (fst (snd (detectStage p now mv))) = alphaDC p"
  "alphaEnv (fst (snd (detectStage p now mv))) = alphaEnv p"
  "alphaThr (fst (snd (detectStage p now mv))) = alphaThr p"
  "nextSampleUs (fst (snd (detectStage p now mv))) = nextSampleUs p"
  by (simp_all add: detectStage_def Let_def split_beta detectArtifact_setup
      peakDetectAndRR_setup nextSampleUs_frame)

lemma sampleStage_setup:
  "ads (fst (sampleStage p inp)) = ads p"
  "lsb_mV (fst (sampleStage p inp)) = lsb_mV p"
  "intervalUs (fst (sampleStage p inp)) = intervalUs p"
  "alphaDC (fst (sampleStage p inp)) = alphaDC p"
  "alphaEnv (fst (sampleStage p inp)) = alphaEnv p"
  "alphaThr (fst (sampleStage p inp)) = alphaThr p"
  "nextSampleUs (fst (sampleStage p inp)) = nextSampleUs p + intervalUs p"
  by (simp_all add: sampleStage_def Let_def)

text \<open>A tick changes neither the configuration nor anything derived from it.\<close>

lemma tick_setup:
  "cfg (tick p inp) = cfg p"
  "cb (tick p inp) = cb p"
  "ads (tick p inp) = ads p"
  "lsb_mV (tick p inp) = lsb_mV p"
  "intervalUs (tick p inp) = intervalUs p"
  "alphaDC (tick p inp) = alphaDC p"
  "alphaEnv (tick p inp) = alphaEnv p"
  "alphaThr (tick p inp) = alphaThr p"
proof -
  have "cfg (tick p inp) = cfg p \<and> cb (tick p inp) = cb p \<and> ads (tick p inp) = ads p \<and>
    lsb_mV (tick p inp) = lsb_mV p \<and> intervalUs (tick p inp) = intervalUs p \<and>
    alphaDC (tick p inp) = alphaDC p \<and> alphaEnv (tick p inp) = alphaEnv p \<and>
    alphaThr (tick p inp) = alphaThr p"
  proof (cases "due p inp")
    case False
    then show ?thesis by (simp add: tick_def)
  next
    case True
    then obtain p1 mv0 mv1 mvP a p3 P2 where
      ss: "sampleStage p inp = (p1, mv0, mv1)" and
      ds: "detectStage p1 (nowMs inp) mvP = (a, p3, P2)" and
      t: "tick p inp =
         handleBurst
           (pushTele
             (setPrimaryCh
               (publishStage (fsmStage p3 (nowMs inp) a (baseOf (primaryCh p1)) P2) (nowMs inp) P2
                 (env (primaryCh p1)) (baseOf (primaryCh p1)) (thrOf p1 (primaryCh p1)))
               P2)
             (nowMs inp))
           (nowMs inp) mv0 mv1"
      by (rule tick_due)
    have p1: "cfg p1 = cfg p" "cb p1 = cb p" "ads p1 = ads p" "lsb_mV p1 = lsb_mV p"
      "intervalUs p1 = intervalUs p" "alphaDC p1 = alphaDC p" "alphaEnv p1 = alphaEnv p"
      "alphaThr p1 = alphaThr p"
      using sampleStage_frame [of p inp] sampleStage_setup [of p inp] ss by simp_all
    have p3: "cfg p3 = cfg p1" "cb p3 = cb p1" "ads p3 = ads p1" "lsb_mV p3 = lsb_mV p1"
      "intervalUs p3 = intervalUs p1" "alphaDC p3 = alphaDC p1" "alphaEnv p3 = alphaEnv p1"
      "alphaThr p3 = alphaThr p1"
      using detectStage_frame [of p1 "nowMs inp" mvP] detectStage_setup [of p1 "nowMs inp" mvP] ds
      by simp_all
    show ?thesis
      by (simp add: t handleBurst_frame pushTele_frame setPrimaryCh_frame publishStage_frame
          fsmStage_frame handleBurst_setup pushTele_setup setPrimaryCh_setup publishStage_setup
          fsmStage_setup p1 p3)
  qed
  then show "cfg (tick p inp) = cfg p"
  "cb (tick p inp) = cb p"
  "ads (tick p inp) = ads p"
  "lsb_mV (tick p inp) = lsb_mV p"
  "intervalUs (tick p inp) = intervalUs p"
  "alphaDC (tick p inp) = alphaDC p"
  "alphaEnv (tick p inp) = alphaEnv p"
  "alphaThr (tick p inp) = alphaThr p" by simp_all
qed

lemma tick_nextSampleUs:
  "nextSampleUs (tick p inp) = (if due p inp then nextSampleUs p + intervalUs p else nextSampleUs p)"
proof (cases "due p inp")
  case False
  then show ?thesis by (simp add: tick_def)
next
  case True
  then obtain p1 mv0 mv1 mvP a p3 P2 where
    ss: "sampleStage p inp = (p1, mv0, mv1)" and
    ds: "detectStage p1 (nowMs inp) mvP = (a, p3, P2)" and
    t: "tick p inp =
       handleBurst
         (pushTele
           (setPrimaryCh
             (publishStage (fsmStage p3 (nowMs inp) a (baseOf (primaryCh p1)) P2) (nowMs inp) P2
               (env (primaryCh p1)) (baseOf (primaryCh p1)) (thrOf p1 (primaryCh p1)))
             P2)
           (nowMs inp))
         (nowMs inp) mv0 mv1"
    by (rule tick_due)
  have "nextSampleUs p1 = nextSampleUs p + intervalUs p"
    using sampleStage_setup [of p inp] ss by simp
  moreover have "nextSampleUs p3 = nextSampleUs p1"
    using detectStage_setup [of p1 "nowMs inp" mvP] ds by simp
  ultimately show ?thesis
    using True by (simp add: t nextSampleUs_frame fsmStage_setup)
qed

section \<open>The hypopnea state machine on an artifact tick\<close>

lemma tick_not_due: "\<not> due p inp \<Longrightarrow> tick p inp = p"
  by (simp add: tick_def)

text \<open>
  Claim C1, as amended. The tick computes \<open>hypoNow\<close> as false when the artifact flag is
  set, and \<open>updateHypopneaFSM\<close> treats that as the condition not holding. So on every
  executed tick whose artifact flag is set, the start timer is zero afterwards, the
  state machine is inactive afterwards, and the only hypopnea event of the tick is one
  \<open>HypopneaEnd\<close>, delivered exactly when the machine was active and a callback is
  registered. The timer is never advanced and no \<open>HypopneaStart\<close> is delivered.
\<close>

theorem hypopnea_on_artifact_tick:
  assumes "due p inp" "artifact (stat (tick p inp))"
  shows "hypoStartMs (tick p inp) = 0 \<and> \<not> hypoActive (tick p inp) \<and>
    filter isHypoEvent (newEvents p (tick p inp)) =
      (if cb p \<and> hypoActive p then [Event HypopneaEnd (nowMs inp) 0] else [])"
proof -
  from assms(1) obtain p1 mv0 mv1 mvP a p3 P2 where
    ss: "sampleStage p inp = (p1, mv0, mv1)" and
    ds: "detectStage p1 (nowMs inp) mvP = (a, p3, P2)" and
    t: "tick p inp =
       handleBurst
         (pushTele
           (setPrimaryCh
             (publishStage (fsmStage p3 (nowMs inp) a (baseOf (primaryCh p1)) P2) (nowMs inp) P2
               (env (primaryCh p1)) (baseOf (primaryCh p1)) (thrOf p1 (primaryCh p1)))
             P2)
           (nowMs inp))
         (nowMs inp) mv0 mv1"
    by (rule tick_due)
  have p1: "delivered p1 = delivered p" "cb p1 = cb p" "hypoActive p1 = hypoActive p"
    using sampleStage_frame [of p inp] ss by simp_all
  have p3: "delivered p3 = delivered p1" "cb p3 = cb p1" "hypoActive p3 = hypoActive p1"
    "artifact (stat p3) = a"
    using detectStage_frame [of p1 "nowMs inp" mvP] ds by simp_all
  have "artifact (stat (tick p inp)) = a"
    by (simp add: t handleBurst_frame pushTele_frame setPrimaryCh_frame publishStage_frame
        fsmStage_frame p3)
  with assms(2) have a: "a = True" by simp
  have h: "hypoStartMs (tick p inp) = 0" "hypoActive (tick p inp) = False"
    by (simp_all add: t a handleBurst_frame pushTele_frame setPrimaryCh_frame publishStage_frame
        fsmStage_artifact_hypo)
  have "delivered (tick p inp) =
      delivered (fsmStage p3 (nowMs inp) True (baseOf (primaryCh p1)) P2)"
    by (simp add: t a handleBurst_frame pushTele_frame setPrimaryCh_frame publishStage_frame)
  then have "filter isHypoEvent (newEvents p (tick p inp)) =
      (if cb p \<and> hypoActive p then [Event HypopneaEnd (nowMs inp) 0] else [])"
    by (simp add: newEvents_def fsmStage_delivered hypoNowOf_def p1 p3 isHypoEvent_def)
  with h show ?thesis by simp
qed

end
